theory Spec2Isabelle
  imports Complex_Main "HOL-Library.Word" "HOL-Library.Char_ord"
begin

unbundle bit_operations_syntax

section \<open>The program: \<^verbatim>\<open>src/components/KeyboardSignature.tsx\<close>\<close>

text \<open>
  A shallow embedding of the signature pipeline of \<^verbatim>\<open>KeyboardSignature.tsx\<close>.

  \<^item> A JavaScript string is a sequence of UTF-16 code units.  The model uses \<open>string\<close>, whose
    characters are the code units below 256 (\<open>of_char\<close> is \<^verbatim>\<open>charCodeAt\<close>); every character
    the layout resolves is ASCII.
  \<^item> A JavaScript number is an IEEE double.  The model computes on \<open>real\<close> (coordinates,
    lengths, angles) and on \<open>int\<close>/\<open>nat\<close> (indices, bins); the 32-bit integer
    operators (\<^verbatim>\<open>^\<close>, \<^verbatim>\<open><<\<close>, \<^verbatim>\<open>>>>\<close>, \<^verbatim>\<open>Math.imul\<close>) act on \<open>32 word\<close>.
  \<^item> The closure returned by \<^verbatim>\<open>makeRng\<close> owns one mutable variable; it is modelled by that
    variable's value (the state) and the step function \<open>rng_next\<close> that returns the draw
    together with the new state.
  \<^item> The path string \<^verbatim>\<open>d\<close> and the colour string are kept as the values they print.

  Where a theorem below evaluates a concrete input, the computation on doubles is the
  same: it is exact there (integers, halves and quarters, \<^verbatim>\<open>Math.pow(b, 0)\<close>, the quotient of
  \<^verbatim>\<open>Math.PI / 2\<close> by \<^verbatim>\<open>Math.PI / 4\<close>) or far from the boundary that decides the result.
\<close>

subsection \<open>Types\<close>

datatype KeyboardLayout = Qwerty

record Key =
  key_x :: real
  key_y :: real

record Pt =
  pt_x :: real
  pt_y :: real
  pt_ch :: char

datatype PairClass = UU | UL | LU | LL | NUM

subsection \<open>Layout\<close>

fun keyboardLayouts :: "KeyboardLayout \<Rightarrow> (char \<times> Key) list" where
  "keyboardLayouts Qwerty =
    [(CHR ''1'', \<lparr>key_x = 0, key_y = -1\<rparr>),
     (CHR ''2'', \<lparr>key_x = 1, key_y = -1\<rparr>),
     (CHR ''3'', \<lparr>key_x = 2, key_y = -1\<rparr>),
     (CHR ''4'', \<lparr>key_x = 3, key_y = -1\<rparr>),
     (CHR ''5'', \<lparr>key_x = 4, key_y = -1\<rparr>),
     (CHR ''6'', \<lparr>key_x = 5, key_y = -1\<rparr>),
     (CHR ''7'', \<lparr>key_x = 6, key_y = -1\<rparr>),
     (CHR ''8'', \<lparr>key_x = 7, key_y = -1\<rparr>),
     (CHR ''9'', \<lparr>key_x = 8, key_y = -1\<rparr>),
     (CHR ''0'', \<lparr>key_x = 9, key_y = -1\<rparr>),
     (CHR ''_'', \<lparr>key_x = 10, key_y = -1\<rparr>),
     (CHR ''Q'', \<lparr>key_x = 0.5, key_y = 0\<rparr>),
     (CHR ''W'', \<lparr>key_x = 1.5, key_y = 0\<rparr>),
     (CHR ''E'', \<lparr>key_x = 2.5, key_y = 0\<rparr>),
     (CHR ''R'', \<lparr>key_x = 3.5, key_y = 0\<rparr>),
     (CHR ''T'', \<lparr>key_x = 4.5, key_y = 0\<rparr>),
     (CHR ''Y'', \<lparr>key_x = 5.5, key_y = 0\<rparr>),
     (CHR ''U'', \<lparr>key_x = 6.5, key_y = 0\<rparr>),
     (CHR ''I'', \<lparr>key_x = 7.5, key_y = 0\<rparr>),
     (CHR ''O'', \<lparr>key_x = 8.5, key_y = 0\<rparr>),
     (CHR ''P'', \<lparr>key_x = 9.5, key_y = 0\<rparr>),
     (CHR ''A'', \<lparr>key_x = 0.75, key_y = 1\<rparr>),
     (CHR ''S'', \<lparr>key_x = 1.75, key_y = 1\<rparr>),
     (CHR ''D'', \<lparr>key_x = 2.75, key_y = 1\<rparr>),
     (CHR ''F'', \<lparr>key_x = 3.75, key_y = 1\<rparr>),
     (CHR ''G'', \<lparr>key_x = 4.75, key_y = 1\<rparr>),
     (CHR ''H'', \<lparr>key_x = 5.75, key_y = 1\<rparr>),
     (CHR ''J'', \<lparr>key_x = 6.75, key_y = 1\<rparr>),
     (CHR ''K'', \<lparr>key_x = 7.75, key_y = 1\<rparr>),
     (CHR ''L'', \<lparr>key_x = 8.75, key_y = 1\<rparr>),
     (CHR ''Z'', \<lparr>key_x = 1.25, key_y = 2\<rparr>),
     (CHR ''X'', \<lparr>key_x = 2.25, key_y = 2\<rparr>),
     (CHR ''C'', \<lparr>key_x = 3.25, key_y = 2\<rparr>),
     (CHR ''V'', \<lparr>key_x = 4.25, key_y = 2\<rparr>),
     (CHR ''B'', \<lparr>key_x = 5.25, key_y = 2\<rparr>),
     (CHR ''N'', \<lparr>key_x = 6.25, key_y = 2\<rparr>),
     (CHR ''M'', \<lparr>key_x = 7.25, key_y = 2\<rparr>)]"

text \<open>The layout's identifier as it is printed into seeds and hashed strings.\<close>

fun layoutId :: "KeyboardLayout \<Rightarrow> string" where
  "layoutId Qwerty = ''qwerty''"

subsection \<open>Small helpers\<close>

text \<open>
  \<^verbatim>\<open>/[0-9_]/\<close>, \<^verbatim>\<open>/^[A-Z]$/\<close>, \<^verbatim>\<open>/^[a-z]$/\<close> and \<^verbatim>\<open>/[a-zA-Z]/\<close> on a one-character string:
  a character class is a range of code units.
\<close>

definition isNumOrUnd :: "char \<Rightarrow> bool" where
  "isNumOrUnd c = ((CHR ''0'' \<le> c \<and> c \<le> CHR ''9'') \<or> c = CHR ''_'')"

definition isUpper :: "char \<Rightarrow> bool" where
  "isUpper c = (CHR ''A'' \<le> c \<and> c \<le> CHR ''Z'')"

definition isLower :: "char \<Rightarrow> bool" where
  "isLower c = (CHR ''a'' \<le> c \<and> c \<le> CHR ''z'')"

definition isLetter :: "char \<Rightarrow> bool" where
  "isLetter c = ((CHR ''a'' \<le> c \<and> c \<le> CHR ''z'') \<or> (CHR ''A'' \<le> c \<and> c \<le> CHR ''Z''))"

definition clamp :: "'a::linorder \<Rightarrow> 'a \<Rightarrow> 'a \<Rightarrow> 'a" where
  "clamp v lo hi = max lo (min hi v)"

text \<open>
  \<^verbatim>\<open>String.prototype.toUpperCase\<close> and \<^verbatim>\<open>toLowerCase\<close> on code units below 256.  The
  program upper-cases only what \<^verbatim>\<open>/[a-zA-Z]/\<close> accepted.  Lower-casing moves \<open>A\<close>..\<open>Z\<close> and
  the Latin-1 capitals \<open>0xC0\<close>..\<open>0xDE\<close> (without the multiplication sign \<open>0xD7\<close>) up by 32.
\<close>

definition toUpperCase_char :: "char \<Rightarrow> char" where
  "toUpperCase_char c =
    (if CHR ''a'' \<le> c \<and> c \<le> CHR ''z'' then char_of (of_char c - (32::nat)) else c)"

definition toLowerCase_char :: "char \<Rightarrow> char" where
  "toLowerCase_char c =
    (if (CHR ''A'' \<le> c \<and> c \<le> CHR ''Z'') \<or> (CHR 0xC0 \<le> c \<and> c \<le> CHR 0xDE \<and> c \<noteq> CHR 0xD7)
     then char_of (of_char c + (32::nat)) else c)"

definition toLowerCase :: "string \<Rightarrow> string" where
  "toLowerCase s = map toLowerCase_char s"

text \<open>\<^verbatim>\<open>Math.round\<close> rounds half up; \<^verbatim>\<open>Math.hypot\<close>; \<^verbatim>\<open>Math.atan2\<close> by quadrant.\<close>

definition Math_round :: "real \<Rightarrow> int" where
  "Math_round v = \<lfloor>v + 1 / 2\<rfloor>"

definition Math_hypot :: "real \<Rightarrow> real \<Rightarrow> real" where
  "Math_hypot dx dy = sqrt (dx * dx + dy * dy)"

definition Math_atan2 :: "real \<Rightarrow> real \<Rightarrow> real" where
  "Math_atan2 dy dx =
    (if 0 < dx then arctan (dy / dx)
     else if dx < 0 then (if 0 \<le> dy then arctan (dy / dx) + pi else arctan (dy / dx) - pi)
     else if 0 < dy then pi / 2
     else if dy < 0 then - (pi / 2)
     else 0)"

text \<open>
  \<^verbatim>\<open>Math.pow(b, e)\<close> for \<open>b \<ge> 0\<close> and \<open>e \<ge> 0\<close>, the only arguments the program passes:
  \<^verbatim>\<open>Math.pow(b, 0)\<close> is 1 for every \<open>b\<close>, also for \<open>b = 0\<close>.
\<close>

definition Math_pow :: "real \<Rightarrow> real \<Rightarrow> real" where
  "Math_pow b e = (if e = 0 then 1 else b powr e)"

text \<open>\<^verbatim>\<open>v || 1\<close> on a number: 1 when \<open>v\<close> is zero.\<close>

definition or1 :: "'a::zero_neq_one \<Rightarrow> 'a" where
  "or1 v = (if v = 0 then 1 else v)"

text \<open>The remainder operator \<^verbatim>\<open>%\<close> on integers: the result has the sign of the dividend.\<close>

definition js_rem :: "int \<Rightarrow> int \<Rightarrow> int" where
  "js_rem m n = sgn m * (\<bar>m\<bar> mod \<bar>n\<bar>)"

subsection \<open>FNV-1a hash\<close>

text \<open>
  \<^verbatim>\<open>for (i...) { h ^= s.charCodeAt(i); h = Math.imul(h, 0x01000193); }\<close> from
  \<^verbatim>\<open>h = 0x811c9dc5\<close>; \<^verbatim>\<open>h >>> 0\<close> reads the 32 bits as unsigned (\<open>unat\<close>).
\<close>

fun hash32_loop :: "string \<Rightarrow> 32 word \<Rightarrow> 32 word" where
  "hash32_loop [] h = h"
| "hash32_loop (c # s) h = hash32_loop s ((h XOR of_char c) * 0x01000193)"

definition hash32 :: "string \<Rightarrow> 32 word" where
  "hash32 s = hash32_loop s 0x811c9dc5"

subsection \<open>Pair classes and dash patterns\<close>

definition classifyPair :: "char \<Rightarrow> char \<Rightarrow> PairClass" where
  "classifyPair a b =
    (if isNumOrUnd a \<or> isNumOrUnd b then NUM
     else if isUpper a \<and> isUpper b then UU
     else if isLower a \<and> isLower b then LL
     else if isUpper a \<and> isLower b then UL else LU)"

fun DASH_ALPHABET :: "PairClass \<Rightarrow> nat list list" where
  "DASH_ALPHABET UU = [[]]"
| "DASH_ALPHABET UL = [[8, 6], [12, 4, 2, 4]]"
| "DASH_ALPHABET LU = [[8, 6], [3, 3, 1, 3]]"
| "DASH_ALPHABET LL = [[2, 6], [3, 3, 1, 3]]"
| "DASH_ALPHABET NUM = [[1, 8], [2, 8]]"

definition legacyDash :: "char \<Rightarrow> char \<Rightarrow> nat list option" where
  "legacyDash a b =
    (if isNumOrUnd a \<or> isNumOrUnd b then Some [1, 8]
     else if isUpper a \<and> isUpper b then Some []
     else Some [8, 6])"

subsection \<open>Seeded generator\<close>

definition makeRng :: "string \<Rightarrow> 32 word" where
  "makeRng seedStr = or1 (hash32 seedStr)"

definition rng_next :: "32 word \<Rightarrow> real \<times> 32 word" where
  "rng_next x0 =
    (let x1 = x0 XOR push_bit 13 x0;
         x2 = x1 XOR drop_bit 17 x1;
         x3 = x2 XOR push_bit 5 x2
     in (real (unat x3) / 0xffffffff, x3))"

text \<open>
  \<^verbatim>\<open>choices[idx]\<close> is \<^verbatim>\<open>undefined\<close> outside the array: \<open>None\<close>.  The generator is a
  callback; it is called once and its new state is returned with the pattern.
\<close>

definition arrayGet :: "'a list \<Rightarrow> int \<Rightarrow> 'a option" where
  "arrayGet xs i = (if 0 \<le> i \<and> i < int (length xs) then Some (xs ! nat i) else None)"

definition dashForPair :: "char \<Rightarrow> char \<Rightarrow> ('s \<Rightarrow> real \<times> 's) \<Rightarrow> 's \<Rightarrow> nat list option \<times> 's" where
  "dashForPair a b rng st =
    (let klass = classifyPair a b;
         choices = DASH_ALPHABET klass;
         (draw, st') = rng st;
         idx = js_rem \<lfloor>draw * real (length choices)\<rfloor> (int (length choices))
     in (arrayGet choices idx, st'))"

subsection \<open>Bigram colour\<close>

record Hsl =
  hsl_hue :: nat
  hsl_s :: int
  hsl_l :: int

fun classLabel :: "PairClass \<Rightarrow> string" where
  "classLabel UU = ''UU''"
| "classLabel UL = ''UL''"
| "classLabel LU = ''LU''"
| "classLabel LL = ''LL''"
| "classLabel NUM = ''NUM''"

fun colorBase :: "PairClass \<Rightarrow> int \<times> int" where
  "colorBase UU = (45, 58)"
| "colorBase UL = (60, 52)"
| "colorBase LU = (60, 52)"
| "colorBase LL = (55, 48)"
| "colorBase NUM = (35, 64)"

definition colorForPair :: "char \<Rightarrow> char \<Rightarrow> real \<Rightarrow> Hsl" where
  "colorForPair prev cur pxLen =
    (let klass = classifyPair prev cur;
         seed = [prev, cur] @ ''|'' @ classLabel klass;
         hue = unat (hash32 seed) mod 360;
         (bs, bl) = colorBase klass;
         lenClamped = clamp pxLen 0 120;
         deltaL = Math_round ((lenClamped / 120) * 12) - 6;
         s = clamp bs 30 80;
         l = clamp (bl + deltaL) 20 80
     in \<lparr>hsl_hue = hue, hsl_s = s, hsl_l = l\<rparr>)"

subsection \<open>Catmull-Rom controls\<close>

record Controls =
  c1x :: real
  c1y :: real
  c2x :: real
  c2y :: real

definition catmullRomCubicForSegment :: "Pt \<Rightarrow> Pt \<Rightarrow> Pt \<Rightarrow> Pt \<Rightarrow> real \<Rightarrow> Controls" where
  "catmullRomCubicForSegment p0 p1 p2 p3 alpha =
    (let d01 = or1 (Math_pow (Math_hypot (pt_x p1 - pt_x p0) (pt_y p1 - pt_y p0)) alpha);
         d12 = or1 (Math_pow (Math_hypot (pt_x p2 - pt_x p1) (pt_y p2 - pt_y p1)) alpha);
         d23 = or1 (Math_pow (Math_hypot (pt_x p3 - pt_x p2) (pt_y p3 - pt_y p2)) alpha);
         t1 = d01 + d12;
         t2 = d12 + d23;
         m1x = (pt_x p2 - pt_x p1) / d12 - (pt_x p1 - pt_x p0) / d01;
         m1y = (pt_y p2 - pt_y p1) / d12 - (pt_y p1 - pt_y p0) / d01;
         m2x = (pt_x p3 - pt_x p2) / d23 - (pt_x p2 - pt_x p1) / d12;
         m2y = (pt_y p3 - pt_y p2) / d23 - (pt_y p2 - pt_y p1) / d12;
         tx1 = (m1x * d12) / or1 t1;
         ty1 = (m1y * d12) / or1 t1;
         tx2 = (m2x * d12) / or1 t2;
         ty2 = (m2y * d12) / or1 t2
     in \<lparr>c1x = pt_x p1 + tx1 / 3, c1y = pt_y p1 + ty1 / 3,
         c2x = pt_x p2 - tx2 / 3, c2y = pt_y p2 - ty2 / 3\<rparr>)"

text \<open>The default argument \<^verbatim>\<open>alpha = 0.2\<close> of the function's signature.\<close>

definition catmullRom_default_alpha :: real where
  "catmullRom_default_alpha = 0.2"

subsection \<open>Codec model\<close>

datatype DashMode = Abc | Legacy

record CodecSeg =
  seg_a :: char
  seg_b :: char
  seg_cls :: PairClass
  seg_dir :: int
  seg_lb :: nat

record Codec =
  codec_v :: string
  codec_layout :: KeyboardLayout
  codec_dash :: DashMode
  codec_color :: string
  codec_len :: nat
  codec_hash :: string
  codec_seg :: "CodecSeg list"

definition direction8 :: "real \<Rightarrow> real \<Rightarrow> int" where
  "direction8 dx dy =
    (let theta = Math_atan2 dy dx
     in js_rem (Math_round (theta / (pi / 4)) + 8) 8)"

definition lengthBin :: "real \<Rightarrow> nat" where
  "lengthBin len = (if len < 40 then 0 else if len < 80 then 1 else if len < 120 then 2 else 3)"

text \<open>
  \<^verbatim>\<open>n.toString(16)\<close> for a natural number and \<^verbatim>\<open>s.padStart(w, "0")\<close>.
\<close>

definition hexDigit :: "nat \<Rightarrow> char" where
  "hexDigit k = ''0123456789abcdef'' ! k"

fun toString16 :: "nat \<Rightarrow> string" where
  "toString16 n = (if n < 16 then [hexDigit n] else toString16 (n div 16) @ [hexDigit (n mod 16)])"

definition padStart :: "nat \<Rightarrow> char \<Rightarrow> string \<Rightarrow> string" where
  "padStart w c s = replicate (w - length s) c @ s"

definition buildCodec :: "string \<Rightarrow> KeyboardLayout \<Rightarrow> bool \<Rightarrow> CodecSeg list \<Rightarrow> Codec" where
  "buildCodec name layout useDashAlphabet segs =
    (let lower = toLowerCase name;
         h = padStart 8 (CHR ''0'') (toString16 (unat (hash32 (layoutId layout @ ''|'' @ lower))))
     in \<lparr>codec_v = ''ks1'',
         codec_layout = layout,
         codec_dash = (if useDashAlphabet then Abc else Legacy),
         codec_color = ''bigram-hsl-v1'',
         codec_len = length name,
         codec_hash = h,
         codec_seg = segs\<rparr>)"

text \<open>
  \<^verbatim>\<open>escapeXml\<close>: one pass of \<^verbatim>\<open>replace(/[<>&'"]/g, ...)\<close>; every other character is kept.
\<close>

definition escapeXml_char :: "char \<Rightarrow> string" where
  "escapeXml_char c =
    (if c = CHR ''<'' then ''&lt;''
     else if c = CHR ''>'' then ''&gt;''
     else if c = CHR ''&'' then ''&amp;''
     else if c = CHR 0x27 then ''&apos;''
     else if c = CHR 0x22 then ''&quot;''
     else [c])"

definition escapeXml :: "string \<Rightarrow> string" where
  "escapeXml s = concat (map escapeXml_char s)"

subsection \<open>The component: key centres, segments, codec\<close>

definition KEY_SPACING :: real where
  "KEY_SPACING = 60"

definition KEY_W :: real where
  "KEY_W = 56"

definition KEY_H :: real where
  "KEY_H = 48"

definition PAD_X :: real where
  "PAD_X = 18"

definition PAD_Y :: real where
  "PAD_Y = 18"

text \<open>\<^verbatim>\<open>Math.min(...xs)\<close> on the coordinates of a layout, which has keys.\<close>

fun Math_min :: "real list \<Rightarrow> real" where
  "Math_min [v] = v"
| "Math_min (v # vs) = min v (Math_min vs)"

definition SHIFT_X :: "KeyboardLayout \<Rightarrow> real" where
  "SHIFT_X lay = - Math_min (map (\<lambda>k. key_x (snd k)) (keyboardLayouts lay)) * KEY_SPACING"

definition SHIFT_Y :: "KeyboardLayout \<Rightarrow> real" where
  "SHIFT_Y lay = - Math_min (map (\<lambda>k. key_y (snd k)) (keyboardLayouts lay)) * KEY_SPACING"

definition getKeyCenter :: "KeyboardLayout \<Rightarrow> char \<Rightarrow> Pt option" where
  "getKeyCenter lay c =
    (let key = (if isLetter c then toUpperCase_char c else c)
     in case map_of (keyboardLayouts lay) key of
          None \<Rightarrow> None
        | Some k \<Rightarrow>
            Some \<lparr>pt_x = key_x k * KEY_SPACING + SHIFT_X lay + PAD_X + KEY_W / 2,
                  pt_y = key_y k * KEY_SPACING + SHIFT_Y lay + PAD_Y + KEY_H / 2,
                  pt_ch = c\<rparr>)"

text \<open>
  The path data \<^verbatim>\<open>M x1 y1 L x2 y2\<close> and \<^verbatim>\<open>M x1 y1 C c1x c1y c2x c2y x2 y2\<close>, by the numbers
  printed into it.
\<close>

datatype PathD =
  MoveLine real real real real
| MoveCubic real real real real real real real real

record RenderSeg =
  rs_d :: PathD
  rs_dash :: "nat list option"
  rs_color :: Hsl
  rs_feat :: CodecSeg

text \<open>
  The loop \<^verbatim>\<open>for (let i = 0; i < pts.length - 1; i++)\<close> of \<^verbatim>\<open>segments\<close>, with the generator's
  state and the array \<^verbatim>\<open>segs\<close> passed along.
\<close>

function segLoop :: "bool \<Rightarrow> bool \<Rightarrow> Pt list \<Rightarrow> nat \<Rightarrow> 32 word \<Rightarrow> RenderSeg list \<Rightarrow> RenderSeg list" where
  "segLoop useDashAlphabet useCatmullRom pts i rng segs =
    (if int i < int (length pts) - 1 then
       (let p1 = pts ! i;
            p2 = pts ! (i + 1);
            p0 = (if 0 \<le> int i - 1 then pts ! (i - 1) else p1);
            p3 = (if i + 2 < length pts then pts ! (i + 2) else p2);
            dx = pt_x p2 - pt_x p1;
            dy = pt_y p2 - pt_y p1;
            segLen = Math_hypot dx dy;
            dir = direction8 dx dy;
            lb = lengthBin segLen;
            dr = (if useDashAlphabet then dashForPair (pt_ch p1) (pt_ch p2) rng_next rng
                  else (legacyDash (pt_ch p1) (pt_ch p2), rng));
            color = colorForPair (pt_ch p1) (pt_ch p2) segLen;
            feat = \<lparr>seg_a = pt_ch p1, seg_b = pt_ch p2,
                    seg_cls = classifyPair (pt_ch p1) (pt_ch p2), seg_dir = dir, seg_lb = lb\<rparr>;
            seg = (if \<not> useCatmullRom then
                     \<lparr>rs_d = MoveLine (pt_x p1) (pt_y p1) (pt_x p2) (pt_y p2),
                      rs_dash = fst dr, rs_color = color, rs_feat = feat\<rparr>
                   else
                     (let c = catmullRomCubicForSegment p0 p1 p2 p3 0
                      in \<lparr>rs_d = MoveCubic (pt_x p1) (pt_y p1) (c1x c) (c1y c) (c2x c) (c2y c)
                                   (pt_x p2) (pt_y p2),
                          rs_dash = fst dr, rs_color = color, rs_feat = feat\<rparr>))
        in segLoop useDashAlphabet useCatmullRom pts (i + 1) (snd dr) (segs @ [seg]))
     else segs)"
  by pat_completeness auto
termination
  by (relation "measure (\<lambda>(d, c, pts, i, r, segs). length pts - i)") auto

definition segments :: "string \<Rightarrow> KeyboardLayout \<Rightarrow> bool \<Rightarrow> bool \<Rightarrow> RenderSeg list" where
  "segments name currentKeyboardLayout useDashAlphabet useCatmullRom =
    (if name = [] then []
     else
       (let rng = makeRng (''key-sign:'' @ name @ '':'' @ layoutId currentKeyboardLayout);
            pts = List.map_filter (getKeyCenter currentKeyboardLayout) name
        in if length pts < 2 then []
           else segLoop useDashAlphabet useCatmullRom pts 0 rng []))"

definition codec :: "string \<Rightarrow> KeyboardLayout \<Rightarrow> bool \<Rightarrow> bool \<Rightarrow> Codec option" where
  "codec name currentKeyboardLayout useDashAlphabet useCatmullRom =
    (let segs = segments name currentKeyboardLayout useDashAlphabet useCatmullRom
     in if name = [] \<or> length segs = 0 then None
        else Some (buildCodec name currentKeyboardLayout useDashAlphabet (map rs_feat segs)))"

subsection \<open>Exports\<close>

text \<open>
  \<^verbatim>\<open>exportCODECtxt\<close> writes \<^verbatim>\<open>JSON.stringify(codec, null, 2)\<close>, and \<^verbatim>\<open>exportCODECsvg\<close> writes
  \<^verbatim>\<open>escapeXml(JSON.stringify(codec))\<close> inside a \<^verbatim>\<open>metadata\<close> element; both return without
  writing when there is no codec.  \<^verbatim>\<open>JSON.stringify\<close> is the platform's: it is written here
  after ECMA-262 (\<^verbatim>\<open>SerializeJSONProperty\<close> with its \<^verbatim>\<open>gap\<close> and \<^verbatim>\<open>indent\<close>,
  \<^verbatim>\<open>QuoteJSONString\<close>), for the values a codec holds: strings, integers (printed in decimal),
  arrays and objects, with \<^verbatim>\<open>null\<close> and the booleans.  Joining the parts of an array or an
  object with the separator is written as a recursion over the list.
\<close>

datatype json =
  JNull
| JBool bool
| JNumber int
| JString string
| JArray "json list"
| JObject "(string \<times> json) list"

definition quoteChar :: "char \<Rightarrow> string" where
  "quoteChar c =
    (if c = CHR 0x08 then [CHR 0x5C, CHR ''b'']
     else if c = CHR 0x09 then [CHR 0x5C, CHR ''t'']
     else if c = CHR 0x0A then [CHR 0x5C, CHR ''n'']
     else if c = CHR 0x0C then [CHR 0x5C, CHR ''f'']
     else if c = CHR 0x0D then [CHR 0x5C, CHR ''r'']
     else if c = CHR 0x22 then [CHR 0x5C, CHR 0x22]
     else if c = CHR 0x5C then [CHR 0x5C, CHR 0x5C]
     else if c < CHR 0x20 then
       [CHR 0x5C, CHR ''u'', CHR ''0'', CHR ''0'',
        hexDigit (of_char c div 16), hexDigit (of_char c mod 16)]
     else [c])"

definition QuoteJSONString :: "string \<Rightarrow> string" where
  "QuoteJSONString s = CHR 0x22 # concat (map quoteChar s) @ [CHR 0x22]"

fun decimal :: "nat \<Rightarrow> string" where
  "decimal n = (if n < 10 then [hexDigit n] else decimal (n div 10) @ [hexDigit (n mod 10)])"

definition NumberToString :: "int \<Rightarrow> string" where
  "NumberToString i = (if i < 0 then CHR ''-'' # decimal (nat (- i)) else decimal (nat i))"

fun SerializeJSONProperty :: "string \<Rightarrow> string \<Rightarrow> json \<Rightarrow> string"
  and SerializeElements :: "string \<Rightarrow> string \<Rightarrow> json list \<Rightarrow> string"
  and SerializeMembers :: "string \<Rightarrow> string \<Rightarrow> (string \<times> json) list \<Rightarrow> string"
where
  "SerializeJSONProperty gap indent JNull = ''null''"
| "SerializeJSONProperty gap indent (JBool b) = (if b then ''true'' else ''false'')"
| "SerializeJSONProperty gap indent (JNumber i) = NumberToString i"
| "SerializeJSONProperty gap indent (JString s) = QuoteJSONString s"
| "SerializeJSONProperty gap indent (JArray vs) =
    (if vs = [] then ''[]''
     else if gap = [] then ''['' @ SerializeElements gap (indent @ gap) vs @ '']''
     else ''['' @ CHR 0x0A # (indent @ gap) @ SerializeElements gap (indent @ gap) vs
            @ CHR 0x0A # indent @ '']'')"
| "SerializeJSONProperty gap indent (JObject ms) =
    (if ms = [] then ''{}''
     else if gap = [] then ''{'' @ SerializeMembers gap (indent @ gap) ms @ ''}''
     else ''{'' @ CHR 0x0A # (indent @ gap) @ SerializeMembers gap (indent @ gap) ms
            @ CHR 0x0A # indent @ ''}'')"
| "SerializeElements gap indent [] = []"
| "SerializeElements gap indent [v] = SerializeJSONProperty gap indent v"
| "SerializeElements gap indent (v # w # vs) =
    SerializeJSONProperty gap indent v
      @ (if gap = [] then '','' else CHR '','' # CHR 0x0A # indent)
      @ SerializeElements gap indent (w # vs)"
| "SerializeMembers gap indent [] = []"
| "SerializeMembers gap indent [(k, v)] =
    QuoteJSONString k @ '':'' @ (if gap = [] then [] else '' '') @ SerializeJSONProperty gap indent v"
| "SerializeMembers gap indent ((k, v) # m # ms) =
    QuoteJSONString k @ '':'' @ (if gap = [] then [] else '' '') @ SerializeJSONProperty gap indent v
      @ (if gap = [] then '','' else CHR '','' # CHR 0x0A # indent)
      @ SerializeMembers gap indent (m # ms)"

definition JSON_stringify :: "json \<Rightarrow> nat \<Rightarrow> string" where
  "JSON_stringify v space = SerializeJSONProperty (replicate (min space 10) (CHR '' '')) [] v"

text \<open>
  The codec as the JavaScript object that \<^verbatim>\<open>buildCodec\<close> returns, with the properties in
  the order of the object literals.
\<close>

definition dashLabel :: "DashMode \<Rightarrow> string" where
  "dashLabel d = (case d of Abc \<Rightarrow> ''abc'' | Legacy \<Rightarrow> ''legacy'')"

definition segToJson :: "CodecSeg \<Rightarrow> json" where
  "segToJson s =
    JObject [(''a'', JString [seg_a s]), (''b'', JString [seg_b s]),
             (''cls'', JString (classLabel (seg_cls s))),
             (''dir'', JNumber (seg_dir s)), (''lb'', JNumber (int (seg_lb s)))]"

definition codecToJson :: "Codec \<Rightarrow> json" where
  "codecToJson c =
    JObject [(''v'', JString (codec_v c)),
             (''layout'', JString (layoutId (codec_layout c))),
             (''dash'', JString (dashLabel (codec_dash c))),
             (''color'', JString (codec_color c)),
             (''len'', JNumber (int (codec_len c))),
             (''hash'', JString (codec_hash c)),
             (''seg'', JArray (map segToJson (codec_seg c)))]"

definition svgOpen :: string where
  "svgOpen = ''<svg xmlns='' @ [CHR 0x22] @ ''http://www.w3.org/2000/svg'' @ [CHR 0x22]
     @ '' width='' @ [CHR 0x22] @ ''0'' @ [CHR 0x22] @ '' height='' @ [CHR 0x22] @ ''0'' @ [CHR 0x22]
     @ ''>'' @ [CHR 0x0A] @ ''  <metadata id='' @ [CHR 0x22] @ ''key-sign-codec'' @ [CHR 0x22] @ ''>''"

definition svgClose :: string where
  "svgClose = ''</metadata>'' @ [CHR 0x0A] @ ''</svg>''"

definition exportCODECtxt :: "Codec option \<Rightarrow> string option" where
  "exportCODECtxt cdc =
    (case cdc of
       None \<Rightarrow> None
     | Some c \<Rightarrow> Some (JSON_stringify (codecToJson c) 2))"

definition exportCODECsvg :: "Codec option \<Rightarrow> string option" where
  "exportCODECsvg cdc =
    (case cdc of
       None \<Rightarrow> None
     | Some c \<Rightarrow>
         (let json = JSON_stringify (codecToJson c) 0
          in Some (svgOpen @ escapeXml json @ svgClose)))"

section \<open>Reference definitions\<close>

text \<open>
  The definitions of this section are not code of the program: they phrase what the
  specification says, and the theorems below compare the program with them.
\<close>

text \<open>
  The specification's classifier: rule 1 to rule 5 in priority order, with the character
  classes written out.
\<close>

definition uppercase_letter :: "char \<Rightarrow> bool" where
  "uppercase_letter c = (c \<in> set ''ABCDEFGHIJKLMNOPQRSTUVWXYZ'')"

definition lowercase_letter :: "char \<Rightarrow> bool" where
  "lowercase_letter c = (c \<in> set ''abcdefghijklmnopqrstuvwxyz'')"

definition digit_or_underscore :: "char \<Rightarrow> bool" where
  "digit_or_underscore c = (c \<in> set ''0123456789_'')"

definition classify_spec :: "char \<Rightarrow> char \<Rightarrow> PairClass" where
  "classify_spec a b =
    (if digit_or_underscore a \<or> digit_or_underscore b then NUM
     else if uppercase_letter a \<and> uppercase_letter b then UU
     else if lowercase_letter a \<and> lowercase_letter b then LL
     else if uppercase_letter a \<and> lowercase_letter b then UL
     else LU)"

text \<open>
  A character resolves when the layout has a key for it.  The features of a segment, from
  its two resolved points alone, and the features of all consecutive pairs of a point list.
\<close>

definition resolves :: "KeyboardLayout \<Rightarrow> char \<Rightarrow> bool" where
  "resolves lay c = (getKeyCenter lay c \<noteq> None)"

definition featureOfPair :: "Pt \<Rightarrow> Pt \<Rightarrow> CodecSeg" where
  "featureOfPair p1 p2 =
    \<lparr>seg_a = pt_ch p1, seg_b = pt_ch p2, seg_cls = classifyPair (pt_ch p1) (pt_ch p2),
     seg_dir = direction8 (pt_x p2 - pt_x p1) (pt_y p2 - pt_y p1),
     seg_lb = lengthBin (Math_hypot (pt_x p2 - pt_x p1) (pt_y p2 - pt_y p1))\<rparr>"

definition pairFeatures :: "Pt list \<Rightarrow> CodecSeg list" where
  "pairFeatures pts = map (\<lambda>k. featureOfPair (pts ! k) (pts ! Suc k)) [0 ..< length pts - 1]"

text \<open>
  FNV-1a on 32 bits, in arithmetic on natural numbers: from the offset basis 2166136261,
  each code unit is XORed into the accumulator, which is then multiplied by the prime
  16777619 and truncated to 32 bits.
\<close>

definition fnv1a32 :: "string \<Rightarrow> nat" where
  "fnv1a32 s = foldl (\<lambda>h c. ((h XOR of_char c) * 16777619) mod 2 ^ 32) 2166136261 s"

text \<open>Reading a string of lowercase hexadecimal digits as a number.\<close>

definition hexDigitValue :: "char \<Rightarrow> nat" where
  "hexDigitValue c =
    (if CHR ''0'' \<le> c \<and> c \<le> CHR ''9'' then of_char c - 48
     else if CHR ''a'' \<le> c \<and> c \<le> CHR ''f'' then of_char c - 87
     else 0)"

definition hexValue :: "string \<Rightarrow> nat" where
  "hexValue s = foldl (\<lambda>v c. 16 * v + hexDigitValue c) 0 s"

text \<open>
  The 32-bit xorshift step in arithmetic on natural numbers: left 13, right 17, left 5,
  each XORed into the state, truncated to 32 bits.
\<close>

definition xorshift32_spec :: "nat \<Rightarrow> nat" where
  "xorshift32_spec x =
    (let a = (x XOR x * 2 ^ 13) mod 2 ^ 32;
         b = a XOR a div 2 ^ 17;
         c = (b XOR b * 2 ^ 5) mod 2 ^ 32
     in c)"

text \<open>The value of call number \<open>n\<close> (from 0) of the closure whose state starts at \<open>x\<close>.\<close>

fun rng_draw :: "32 word \<Rightarrow> nat \<Rightarrow> real" where
  "rng_draw x 0 = fst (rng_next x)"
| "rng_draw x (Suc n) = rng_draw (snd (rng_next x)) n"

text \<open>
  The uniform Catmull-Rom controls as the program's formula gives them when every
  distance factor is 1, and the cubic of segment \<open>k\<close> of a point list with the missing
  neighbour of the first and the last segment replaced by the segment's own endpoint.
\<close>

definition uniformControls :: "Pt \<Rightarrow> Pt \<Rightarrow> Pt \<Rightarrow> Pt \<Rightarrow> Controls" where
  "uniformControls p0 p1 p2 p3 =
    \<lparr>c1x = pt_x p1 + ((pt_x p2 - pt_x p1) - (pt_x p1 - pt_x p0)) / 6,
     c1y = pt_y p1 + ((pt_y p2 - pt_y p1) - (pt_y p1 - pt_y p0)) / 6,
     c2x = pt_x p2 - ((pt_x p3 - pt_x p2) - (pt_x p2 - pt_x p1)) / 6,
     c2y = pt_y p2 - ((pt_y p3 - pt_y p2) - (pt_y p2 - pt_y p1)) / 6\<rparr>"

definition cubicOfSegment :: "Pt list \<Rightarrow> nat \<Rightarrow> PathD" where
  "cubicOfSegment pts k =
    (let p1 = pts ! k;
         p2 = pts ! (k + 1);
         p0 = (if k = 0 then p1 else pts ! (k - 1));
         p3 = (if k + 2 = length pts then p2 else pts ! (k + 2));
         c = uniformControls p0 p1 p2 p3
     in MoveCubic (pt_x p1) (pt_y p1) (c1x c) (c1y c) (c2x c) (c2y c) (pt_x p2) (pt_y p2))"

text \<open>
  Modelled from the spec: the repository writes its exports and has no reader for them;
  the specification asks that both forms deserialize back to the record.  The readers are
  the standard ones.  \<open>JSON_parse\<close> is a recursive-descent reader of JSON text for strings (with
  the escapes of the JSON grammar, code units below 256), integers, arrays, objects,
  \<^verbatim>\<open>null\<close> and the booleans, with insignificant white space; its fuel is the length of the
  text, and it returns \<open>None\<close> on every other text.
\<close>

definition isWs :: "char \<Rightarrow> bool" where
  "isWs c = (c = CHR '' '' \<or> c = CHR 0x09 \<or> c = CHR 0x0A \<or> c = CHR 0x0D)"

definition skipWs :: "string \<Rightarrow> string" where
  "skipWs s = dropWhile isWs s"

definition isDigit :: "char \<Rightarrow> bool" where
  "isDigit c = (CHR ''0'' \<le> c \<and> c \<le> CHR ''9'')"

definition hexVal :: "char \<Rightarrow> nat option" where
  "hexVal c =
    (if CHR ''0'' \<le> c \<and> c \<le> CHR ''9'' then Some (of_char c - 48)
     else if CHR ''a'' \<le> c \<and> c \<le> CHR ''f'' then Some (of_char c - 87)
     else if CHR ''A'' \<le> c \<and> c \<le> CHR ''F'' then Some (of_char c - 55)
     else None)"

definition unescapeChar :: "char \<Rightarrow> char option" where
  "unescapeChar e =
    (if e = CHR 0x22 then Some (CHR 0x22)
     else if e = CHR 0x5C then Some (CHR 0x5C)
     else if e = CHR ''/'' then Some (CHR ''/'')
     else if e = CHR ''b'' then Some (CHR 0x08)
     else if e = CHR ''f'' then Some (CHR 0x0C)
     else if e = CHR ''n'' then Some (CHR 0x0A)
     else if e = CHR ''r'' then Some (CHR 0x0D)
     else if e = CHR ''t'' then Some (CHR 0x09)
     else None)"

definition consResult :: "char \<Rightarrow> (string \<times> string) option \<Rightarrow> (string \<times> string) option" where
  "consResult c r = (case r of None \<Rightarrow> None | Some (t, rest) \<Rightarrow> Some (c # t, rest))"

fun parseStringBody :: "string \<Rightarrow> (string \<times> string) option" where
  "parseStringBody [] = None"
| "parseStringBody (c # s) =
    (if c = CHR 0x22 then Some ([], s)
     else if c = CHR 0x5C then
       (case s of
          [] \<Rightarrow> None
        | e # s1 \<Rightarrow>
            if e = CHR ''u'' then
              (case s1 of
                 h1 # h2 # h3 # h4 # s2 \<Rightarrow>
                   (case (hexVal h1, hexVal h2, hexVal h3, hexVal h4) of
                      (Some a, Some b, Some c, Some d) \<Rightarrow>
                        if a = 0 \<and> b = 0
                        then consResult (char_of (16 * c + d)) (parseStringBody s2)
                        else None
                    | _ \<Rightarrow> None)
               | _ \<Rightarrow> None)
            else
              (case unescapeChar e of
                 None \<Rightarrow> None
               | Some d \<Rightarrow> consResult d (parseStringBody s1)))
     else if c < CHR 0x20 then None
     else consResult c (parseStringBody s))"

definition decValue :: "string \<Rightarrow> nat" where
  "decValue ds = foldl (\<lambda>v c. 10 * v + (of_char c - 48)) 0 ds"

definition parseDigits :: "string \<Rightarrow> (nat \<times> string) option" where
  "parseDigits s =
    (let ds = takeWhile isDigit s; rest = dropWhile isDigit s
     in if ds = [] \<or> (hd ds = CHR ''0'' \<and> 1 < length ds)
           \<or> (rest \<noteq> [] \<and> (hd rest = CHR ''.'' \<or> hd rest = CHR ''e'' \<or> hd rest = CHR ''E''))
        then None
        else Some (decValue ds, rest))"

definition parseNumber :: "string \<Rightarrow> (int \<times> string) option" where
  "parseNumber s =
    (case s of
       [] \<Rightarrow> None
     | c # r \<Rightarrow>
         if c = CHR ''-'' then map_option (\<lambda>(n, rest). (- int n, rest)) (parseDigits r)
         else map_option (\<lambda>(n, rest). (int n, rest)) (parseDigits s))"

fun parseValue :: "nat \<Rightarrow> string \<Rightarrow> (json \<times> string) option"
  and parseElements :: "nat \<Rightarrow> string \<Rightarrow> (json list \<times> string) option"
  and parseMembers :: "nat \<Rightarrow> string \<Rightarrow> ((string \<times> json) list \<times> string) option"
where
  "parseValue 0 s = None"
| "parseValue (Suc n) s =
    (case skipWs s of
       [] \<Rightarrow> None
     | c # r \<Rightarrow>
         if c = CHR 0x22 then
           map_option (\<lambda>(t, rest). (JString t, rest)) (parseStringBody r)
         else if c = CHR ''['' then
           (case skipWs r of
              [] \<Rightarrow> None
            | d # r1 \<Rightarrow>
                if d = CHR '']'' then Some (JArray [], r1)
                else map_option (\<lambda>(vs, rest). (JArray vs, rest)) (parseElements n r))
         else if c = CHR ''{'' then
           (case skipWs r of
              [] \<Rightarrow> None
            | d # r1 \<Rightarrow>
                if d = CHR ''}'' then Some (JObject [], r1)
                else map_option (\<lambda>(ms, rest). (JObject ms, rest)) (parseMembers n r))
         else if take 4 (c # r) = ''null'' then Some (JNull, drop 4 (c # r))
         else if take 4 (c # r) = ''true'' then Some (JBool True, drop 4 (c # r))
         else if take 5 (c # r) = ''false'' then Some (JBool False, drop 5 (c # r))
         else map_option (\<lambda>(i, rest). (JNumber i, rest)) (parseNumber (c # r)))"
| "parseElements 0 s = None"
| "parseElements (Suc n) s =
    (case parseValue n s of
       None \<Rightarrow> None
     | Some (v, r) \<Rightarrow>
         (case skipWs r of
            [] \<Rightarrow> None
          | d # r1 \<Rightarrow>
              if d = CHR '','' then
                map_option (\<lambda>(vs, rest). (v # vs, rest)) (parseElements n r1)
              else if d = CHR '']'' then Some ([v], r1)
              else None))"
| "parseMembers 0 s = None"
| "parseMembers (Suc n) s =
    (case skipWs s of
       [] \<Rightarrow> None
     | q # r \<Rightarrow>
         if q = CHR 0x22 then
           (case parseStringBody r of
              None \<Rightarrow> None
            | Some (k, r1) \<Rightarrow>
                (case skipWs r1 of
                   [] \<Rightarrow> None
                 | c # r2 \<Rightarrow>
                     if c = CHR '':'' then
                       (case parseValue n r2 of
                          None \<Rightarrow> None
                        | Some (v, r3) \<Rightarrow>
                            (case skipWs r3 of
                               [] \<Rightarrow> None
                             | d # r4 \<Rightarrow>
                                 if d = CHR '','' then
                                   map_option (\<lambda>(ms, rest). ((k, v) # ms, rest)) (parseMembers n r4)
                                 else if d = CHR ''}'' then Some ([(k, v)], r4)
                                 else None))
                     else None))
         else None)"

definition JSON_parse :: "string \<Rightarrow> json option" where
  "JSON_parse s =
    (case parseValue (length s) s of
       None \<Rightarrow> None
     | Some (v, rest) \<Rightarrow> if skipWs rest = [] then Some v else None)"

text \<open>
  Modelled from the spec: decoding the five predefined entities of XML in one pass from
  left to right; every other character stands for itself.
\<close>

function unescapeXml :: "string \<Rightarrow> string" where
  "unescapeXml [] = []"
| "unescapeXml (c # s) =
    (if c = CHR ''&'' then
       (if take 3 s = ''lt;'' then CHR ''<'' # unescapeXml (drop 3 s)
        else if take 3 s = ''gt;'' then CHR ''>'' # unescapeXml (drop 3 s)
        else if take 4 s = ''amp;'' then CHR ''&'' # unescapeXml (drop 4 s)
        else if take 5 s = ''apos;'' then CHR 0x27 # unescapeXml (drop 5 s)
        else if take 5 s = ''quot;'' then CHR 0x22 # unescapeXml (drop 5 s)
        else c # unescapeXml s)
     else c # unescapeXml s)"
  by pat_completeness auto
termination
  by (relation "measure length") auto

text \<open>
  Modelled from the spec: reading a record from the parsed JSON value by its properties,
  and reading the text of the \<^verbatim>\<open>metadata\<close> element of the exported document (the character
  data up to the next tag, entities decoded).
\<close>

definition layoutOfId :: "string \<Rightarrow> KeyboardLayout option" where
  "layoutOfId s = (if s = ''qwerty'' then Some Qwerty else None)"

definition dashOfLabel :: "string \<Rightarrow> DashMode option" where
  "dashOfLabel s = (if s = ''abc'' then Some Abc else if s = ''legacy'' then Some Legacy else None)"

definition classOfLabel :: "string \<Rightarrow> PairClass option" where
  "classOfLabel s =
    (if s = ''UU'' then Some UU else if s = ''UL'' then Some UL else if s = ''LU'' then Some LU
     else if s = ''LL'' then Some LL else if s = ''NUM'' then Some NUM else None)"

definition jsonField :: "string \<Rightarrow> json \<Rightarrow> json option" where
  "jsonField k j = (case j of JObject ms \<Rightarrow> map_of ms k | _ \<Rightarrow> None)"

definition asString :: "json \<Rightarrow> string option" where
  "asString j = (case j of JString s \<Rightarrow> Some s | _ \<Rightarrow> None)"

definition asChar :: "json \<Rightarrow> char option" where
  "asChar j = (case j of JString s \<Rightarrow> (if length s = 1 then Some (hd s) else None) | _ \<Rightarrow> None)"

definition asInt :: "json \<Rightarrow> int option" where
  "asInt j = (case j of JNumber i \<Rightarrow> Some i | _ \<Rightarrow> None)"

definition asNat :: "json \<Rightarrow> nat option" where
  "asNat j = (case j of JNumber i \<Rightarrow> (if 0 \<le> i then Some (nat i) else None) | _ \<Rightarrow> None)"

definition asArray :: "json \<Rightarrow> json list option" where
  "asArray j = (case j of JArray vs \<Rightarrow> Some vs | _ \<Rightarrow> None)"

definition segOfJson :: "json \<Rightarrow> CodecSeg option" where
  "segOfJson j =
    Option.bind (Option.bind (jsonField ''a'' j) asChar) (\<lambda>a.
    Option.bind (Option.bind (jsonField ''b'' j) asChar) (\<lambda>b.
    Option.bind (Option.bind (Option.bind (jsonField ''cls'' j) asString) classOfLabel) (\<lambda>k.
    Option.bind (Option.bind (jsonField ''dir'' j) asInt) (\<lambda>d.
    Option.bind (Option.bind (jsonField ''lb'' j) asNat) (\<lambda>n.
      Some \<lparr>seg_a = a, seg_b = b, seg_cls = k, seg_dir = d, seg_lb = n\<rparr>)))))"

fun segsOfJson :: "json list \<Rightarrow> CodecSeg list option" where
  "segsOfJson [] = Some []"
| "segsOfJson (j # js) =
    Option.bind (segOfJson j) (\<lambda>s. Option.bind (segsOfJson js) (\<lambda>ss. Some (s # ss)))"

definition codecOfJson :: "json \<Rightarrow> Codec option" where
  "codecOfJson j =
    Option.bind (Option.bind (jsonField ''v'' j) asString) (\<lambda>v.
    Option.bind (Option.bind (Option.bind (jsonField ''layout'' j) asString) layoutOfId) (\<lambda>lay.
    Option.bind (Option.bind (Option.bind (jsonField ''dash'' j) asString) dashOfLabel) (\<lambda>dm.
    Option.bind (Option.bind (jsonField ''color'' j) asString) (\<lambda>col.
    Option.bind (Option.bind (jsonField ''len'' j) asNat) (\<lambda>n.
    Option.bind (Option.bind (jsonField ''hash'' j) asString) (\<lambda>h.
    Option.bind (Option.bind (Option.bind (jsonField ''seg'' j) asArray) segsOfJson) (\<lambda>ss.
      Some \<lparr>codec_v = v, codec_layout = lay, codec_dash = dm, codec_color = col,
             codec_len = n, codec_hash = h, codec_seg = ss\<rparr>)))))))"

definition readMetadata :: "string \<Rightarrow> string option" where
  "readMetadata doc =
    (if take (length svgOpen) doc = svgOpen
     then Some (unescapeXml (takeWhile (\<lambda>c. c \<noteq> CHR ''<'') (drop (length svgOpen) doc)))
     else None)"

text \<open>What may follow a number in a text, and strings of white space, for the facts below.\<close>

definition numberEnd :: "string \<Rightarrow> bool" where
  "numberEnd rest =
    (rest = [] \<or> \<not> (isDigit (hd rest) \<or> hd rest = CHR ''.'' \<or> hd rest = CHR ''e'' \<or> hd rest = CHR ''E''))"

definition wsOnly :: "string \<Rightarrow> bool" where
  "wsOnly s = list_all isWs s"

section \<open>Basic facts\<close>

declare segLoop.simps [simp del]

declare toString16.simps [simp del]

lemma char_of_nat_bits:
  "char_of (n::nat) = Char (odd n) (odd (n div 2)) (odd (n div 4)) (odd (n div 8))
     (odd (n div 16)) (odd (n div 32)) (odd (n div 64)) (odd (n div 128))"
  by (simp add: char_of_def bit_iff_odd_drop_bit drop_bit_eq_div)

lemma char_between:
  fixes c :: char
  assumes "lo \<le> c" "c \<le> hi"
    and cs: "map of_char cs = [of_char lo ..< Suc (of_char hi :: nat)]"
  shows "c \<in> set cs"
proof -
  have "(of_char lo :: nat) \<le> of_char c" "(of_char c :: nat) \<le> of_char hi"
    using assms(1,2) by (simp_all add: less_eq_char_def)
  then have "(of_char c :: nat) \<in> set [of_char lo ..< Suc (of_char hi)]"
    unfolding set_upt atLeastLessThan_iff less_Suc_eq_le by simp
  then have "(of_char c :: nat) \<in> of_char ` set cs"
    unfolding cs [symmetric] by simp
  then obtain d where "d \<in> set cs" "(of_char c :: nat) = of_char d"
    by blast
  then show ?thesis by simp
qed

lemma isUpper_iff: "isUpper c \<longleftrightarrow> c \<in> set ''ABCDEFGHIJKLMNOPQRSTUVWXYZ''"
proof
  assume "isUpper c"
  then show "c \<in> set ''ABCDEFGHIJKLMNOPQRSTUVWXYZ''"
    unfolding isUpper_def
    by (intro char_between [of "CHR ''A''" c "CHR ''Z''"]) (simp_all add: upt_rec)
next
  assume "c \<in> set ''ABCDEFGHIJKLMNOPQRSTUVWXYZ''"
  then show "isUpper c"
    unfolding isUpper_def by auto
qed

lemma isLower_iff: "isLower c \<longleftrightarrow> c \<in> set ''abcdefghijklmnopqrstuvwxyz''"
proof
  assume "isLower c"
  then show "c \<in> set ''abcdefghijklmnopqrstuvwxyz''"
    unfolding isLower_def
    by (intro char_between [of "CHR ''a''" c "CHR ''z''"]) (simp_all add: upt_rec)
next
  assume "c \<in> set ''abcdefghijklmnopqrstuvwxyz''"
  then show "isLower c"
    unfolding isLower_def by auto
qed

lemma isNumOrUnd_iff: "isNumOrUnd c \<longleftrightarrow> c \<in> set ''0123456789_''"
proof
  assume a: "isNumOrUnd c"
  show "c \<in> set ''0123456789_''"
  proof (cases "c = CHR ''_''")
    case True
    then show ?thesis by simp
  next
    case False
    with a have "c \<in> set ''0123456789''"
      unfolding isNumOrUnd_def
      by (intro char_between [of "CHR ''0''" c "CHR ''9''"]) (simp_all add: upt_rec)
    then show ?thesis by auto
  qed
next
  assume "c \<in> set ''0123456789_''"
  then show "isNumOrUnd c"
    unfolding isNumOrUnd_def by auto
qed

lemma js_rem_nonneg: "0 \<le> m \<Longrightarrow> 0 < n \<Longrightarrow> js_rem m n = m mod n"
  by (simp add: js_rem_def sgn_if)

lemma DASH_ALPHABET_length: "length (DASH_ALPHABET k) = 1 \<or> length (DASH_ALPHABET k) = 2"
  by (cases k) simp_all

subsection \<open>The segment loop\<close>

text \<open>
  The features the loop appends are those of the consecutive pairs from index \<open>i\<close> on,
  whatever the dash mode, the curve mode and the generator's state.
\<close>

lemma segLoop_feats:
  "map rs_feat (segLoop d c pts i rng segs) =
     map rs_feat segs @ map (\<lambda>k. featureOfPair (pts ! k) (pts ! Suc k)) [i ..< length pts - 1]"
proof (induction "length pts - 1 - i" arbitrary: i rng segs)
  case 0
  then have stop: "\<not> int i < int (length pts) - 1" and "length pts - 1 \<le> i"
    by linarith+
  then show ?case
    by (subst segLoop.simps) simp
next
  case (Suc n)
  then have go: "int i < int (length pts) - 1" and lt: "i < length pts - 1"
    and n: "n = length pts - 1 - (i + 1)"
    by linarith+
  show ?case
    apply (subst segLoop.simps)
    apply (simp only: go if_True Let_def)
    apply (subst Suc.hyps(1) [OF n])
    using lt apply (simp add: upt_conv_Cons featureOfPair_def)
    done
qed

lemma segments_feats:
  "map rs_feat (segments name lay d c) =
     pairFeatures (List.map_filter (getKeyCenter lay) name)"
proof -
  let ?pts = "List.map_filter (getKeyCenter lay) name"
  have short: "length ?pts < 2 \<Longrightarrow> pairFeatures ?pts = []"
    unfolding pairFeatures_def by simp
  have empty: "name = [] \<Longrightarrow> pairFeatures ?pts = []"
    unfolding pairFeatures_def by simp
  show ?thesis
    unfolding segments_def Let_def
    using short empty by (simp add: segLoop_feats pairFeatures_def)
qed

lemma segments_length:
  "length (segments name lay d c) = length (List.map_filter (getKeyCenter lay) name) - 1"
proof -
  have "length (map rs_feat (segments name lay d c)) =
      length (List.map_filter (getKeyCenter lay) name) - 1"
    unfolding segments_feats pairFeatures_def by simp
  then show ?thesis by simp
qed

lemma getKeyCenter_ch: "getKeyCenter lay c = Some p \<Longrightarrow> pt_ch p = c"
  by (auto simp: getKeyCenter_def Let_def split: option.splits)

lemma resolved_chars:
  "map pt_ch (List.map_filter (getKeyCenter lay) name) = filter (resolves lay) name"
  by (induction name) (auto simp: resolves_def getKeyCenter_ch split: option.splits)

lemma resolved_count:
  "length (List.map_filter (getKeyCenter lay) name) = length (filter (resolves lay) name)"
proof -
  have "length (map pt_ch (List.map_filter (getKeyCenter lay) name)) =
      length (filter (resolves lay) name)"
    unfolding resolved_chars ..
  then show ?thesis by simp
qed

lemma pairs_zip: "map (\<lambda>k. (xs ! k, xs ! Suc k)) [0 ..< length xs - 1] = zip xs (tl xs)"
  by (rule nth_equalityI) (auto simp: nth_tl)

lemma codec_explicit:
  "codec name lay dashAbc cm =
     (let pts = List.map_filter (getKeyCenter lay) name
      in if length pts < 2 then None
         else Some (buildCodec name lay dashAbc (pairFeatures pts)))"
proof (cases "name = []")
  case True
  then show ?thesis by (simp add: codec_def segments_def)
next
  case False
  have "length (segments name lay dashAbc cm) = 0 \<longleftrightarrow>
      length (List.map_filter (getKeyCenter lay) name) < 2"
    unfolding segments_length by linarith
  with False show ?thesis
    unfolding codec_def Let_def segments_feats by simp
qed

subsection \<open>Key centres\<close>

lemma key_a: "getKeyCenter Qwerty (CHR ''a'') = Some \<lparr>pt_x = 91, pt_y = 162, pt_ch = CHR ''a''\<rparr>"
  by (simp add: getKeyCenter_def isLetter_def toUpperCase_char_def char_of_nat_bits SHIFT_X_def
      SHIFT_Y_def KEY_SPACING_def PAD_X_def PAD_Y_def KEY_W_def KEY_H_def)

lemma key_q: "getKeyCenter Qwerty (CHR ''q'') = Some \<lparr>pt_x = 76, pt_y = 102, pt_ch = CHR ''q''\<rparr>"
  by (simp add: getKeyCenter_def isLetter_def toUpperCase_char_def char_of_nat_bits SHIFT_X_def
      SHIFT_Y_def KEY_SPACING_def PAD_X_def PAD_Y_def KEY_W_def KEY_H_def)

lemma key_w: "getKeyCenter Qwerty (CHR ''w'') = Some \<lparr>pt_x = 136, pt_y = 102, pt_ch = CHR ''w''\<rparr>"
  by (simp add: getKeyCenter_def isLetter_def toUpperCase_char_def char_of_nat_bits SHIFT_X_def
      SHIFT_Y_def KEY_SPACING_def PAD_X_def PAD_Y_def KEY_W_def KEY_H_def)

lemma key_r: "getKeyCenter Qwerty (CHR ''r'') = Some \<lparr>pt_x = 256, pt_y = 102, pt_ch = CHR ''r''\<rparr>"
  by (simp add: getKeyCenter_def isLetter_def toUpperCase_char_def char_of_nat_bits SHIFT_X_def
      SHIFT_Y_def KEY_SPACING_def PAD_X_def PAD_Y_def KEY_W_def KEY_H_def)

subsection \<open>The hash and its hexadecimal rendering\<close>

lemma unat_of_char: "unat (of_char c :: 32 word) = of_char c"
proof -
  have "unat (of_nat (of_char c) :: 32 word) = (of_char c :: nat) mod 2 ^ LENGTH(32)"
    by (rule unat_of_nat)
  moreover have "(of_char c :: nat) < 2 ^ LENGTH(32)"
    by (rule less_trans [OF nat_of_char_less_256]) simp
  ultimately show ?thesis by (simp add: of_nat_of_char)
qed

lemma fnv_step:
  "unat ((h XOR of_char c) * (0x01000193 :: 32 word)) =
     ((unat h XOR of_char c) * 16777619) mod 2 ^ 32"
  by (simp add: unat_word_ariths unsigned_xor_eq unat_of_char)

lemma hash32_loop_fnv:
  "unat (hash32_loop s h) =
     foldl (\<lambda>h c. ((h XOR of_char c) * 16777619) mod 2 ^ 32) (unat h) s"
  by (induction s arbitrary: h) (simp_all add: fnv_step)

lemma hash32_fnv: "unat (hash32 s) = fnv1a32 s"
  by (simp add: hash32_def fnv1a32_def hash32_loop_fnv)

lemma hexDigit_cases:
  assumes "k < 16"
  shows "hexDigit k \<in> set ''0123456789abcdef'' \<and> hexDigitValue (hexDigit k) = k"
proof -
  from assms have "k \<in> set [0..<16]" by simp
  then show ?thesis
    by (auto simp: upt_rec hexDigit_def hexDigitValue_def)
qed

lemma toString16_digits: "set (toString16 n) \<subseteq> set ''0123456789abcdef''"
proof (induction n rule: toString16.induct)
  case (1 n)
  show ?case
  proof (cases "n < 16")
    case True
    then show ?thesis
      using hexDigit_cases [of n] by (subst toString16.simps) simp
  next
    case False
    have "n mod 16 < 16" by simp
    then show ?thesis
      using False 1 hexDigit_cases [of "n mod 16"] by (subst toString16.simps) simp
  qed
qed

lemma toString16_length: "n < 16 ^ k \<Longrightarrow> 0 < k \<Longrightarrow> length (toString16 n) \<le> k"
proof (induction n arbitrary: k rule: toString16.induct)
  case (1 n)
  show ?case
  proof (cases "n < 16")
    case True
    then show ?thesis
      using 1(3) by (subst toString16.simps) simp
  next
    case False
    then obtain j where k: "k = Suc j" and j: "0 < j"
      using 1(2,3) by (cases k; cases "k - 1") auto
    have "n div 16 < 16 ^ j"
      using 1(2) unfolding k by (simp add: less_mult_imp_div_less mult.commute)
    then have "length (toString16 (n div 16)) \<le> j"
      using 1(1) [OF False _ j] by simp
    then show ?thesis
      using False unfolding k by (subst toString16.simps) simp
  qed
qed

lemma hexValue_snoc: "hexValue (s @ [c]) = 16 * hexValue s + hexDigitValue c"
  by (simp add: hexValue_def)

lemma hexValue_toString16: "hexValue (toString16 n) = n"
proof (induction n rule: toString16.induct)
  case (1 n)
  show ?case
  proof (cases "n < 16")
    case True
    then show ?thesis
      using hexDigit_cases [of n] by (subst toString16.simps) (simp add: hexValue_def)
  next
    case False
    have "n mod 16 < 16" by simp
    then have "hexDigitValue (hexDigit (n mod 16)) = n mod 16"
      using hexDigit_cases by blast
    then show ?thesis
      using False 1 by (subst toString16.simps) (simp add: hexValue_snoc)
  qed
qed

lemma hexDigitValue_0: "hexDigitValue (CHR ''0'') = 0"
  by (simp add: hexDigitValue_def)

lemma hexValue_zeros: "hexValue (replicate m (CHR ''0'') @ s) = hexValue s"
proof -
  have "foldl (\<lambda>v c. 16 * v + hexDigitValue c) 0 (replicate m (CHR ''0'')) = 0"
    by (induction m) (simp_all add: hexDigitValue_0)
  then show ?thesis by (simp add: hexValue_def)
qed

lemma hex8:
  assumes "n < 2 ^ 32"
  shows "length (padStart 8 (CHR ''0'') (toString16 n)) = 8"
    and "set (padStart 8 (CHR ''0'') (toString16 n)) \<subseteq> set ''0123456789abcdef''"
    and "hexValue (padStart 8 (CHR ''0'') (toString16 n)) = n"
proof -
  have "n < 16 ^ 8" using assms by simp
  then have len: "length (toString16 n) \<le> 8" by (rule toString16_length) simp
  then show "length (padStart 8 (CHR ''0'') (toString16 n)) = 8"
    by (simp add: padStart_def)
  show "set (padStart 8 (CHR ''0'') (toString16 n)) \<subseteq> set ''0123456789abcdef''"
    using toString16_digits [of n] by (auto simp: padStart_def)
  show "hexValue (padStart 8 (CHR ''0'') (toString16 n)) = n"
    by (simp add: padStart_def hexValue_zeros hexValue_toString16)
qed

lemma unat32_le: "unat (w :: 32 word) \<le> 4294967295"
  using unsigned_less [of w, where 'a = nat] by simp

subsection \<open>The generator\<close>

lemma xor_eq_0_bits:
  fixes x y :: "32 word"
  assumes "x XOR y = 0"
  shows "bit x n \<longleftrightarrow> bit y n"
proof -
  have "\<not> bit (x XOR y) n" using assms by simp
  then show ?thesis by (simp add: bit_xor_iff)
qed

lemma xor_push_bit_nonzero:
  fixes x :: "32 word"
  assumes "x XOR push_bit k x = 0" and k: "0 < k"
  shows "x = 0"
proof -
  have "\<not> bit x n" for n
  proof (induction n rule: less_induct)
    case (less n)
    show ?case
    proof
      assume "bit x n"
      then have "bit (push_bit k x) n"
        using xor_eq_0_bits [OF assms(1)] by simp
      then have "k \<le> n" "bit x (n - k)"
        by (simp_all add: bit_push_bit_iff)
      moreover have "n - k < n" using \<open>k \<le> n\<close> k by simp
      ultimately show False using less by blast
    qed
  qed
  then show ?thesis by (simp add: bit_eq_iff)
qed

lemma xor_drop_bit_nonzero:
  fixes x :: "32 word"
  assumes "x XOR drop_bit k x = 0" and k: "0 < k"
  shows "x = 0"
proof -
  have "\<not> bit x n" for n
  proof (induction "32 - n" arbitrary: n rule: less_induct)
    case less
    show ?case
    proof
      assume b: "bit x n"
      then have n: "n < 32" using bit_imp_le_length [OF b] by simp
      from b have "bit (drop_bit k x) n"
        using xor_eq_0_bits [OF assms(1)] by simp
      then have "bit x (k + n)"
        by (simp add: bit_drop_bit_eq)
      moreover have "32 - (k + n) < 32 - n" using n k by simp
      ultimately show False using less by blast
    qed
  qed
  then show ?thesis by (simp add: bit_eq_iff)
qed

lemma rng_next_nonzero: "x \<noteq> 0 \<Longrightarrow> snd (rng_next x) \<noteq> 0"
  unfolding rng_next_def Let_def snd_conv
  using xor_push_bit_nonzero [of _ 13] xor_push_bit_nonzero [of _ 5] xor_drop_bit_nonzero [of _ 17]
  by (metis zero_less_numeral)

lemma makeRng_nonzero: "makeRng seed \<noteq> 0"
  by (simp add: makeRng_def or1_def)

lemma draw_range: "0 \<le> real (unat (w :: 32 word)) / 0xffffffff \<and> real (unat w) / 0xffffffff \<le> 1"
proof -
  have "real (unat w) \<le> real 4294967295"
    using unat32_le [of w] by (rule of_nat_mono)
  then show ?thesis
    by (simp del: of_nat_unat)
qed

lemma rng_next_range: "0 \<le> fst (rng_next x) \<and> fst (rng_next x) \<le> 1"
  unfolding rng_next_def Let_def fst_conv by (rule draw_range)

lemma draw_pos: "w \<noteq> 0 \<Longrightarrow> 0 < real (unat (w :: 32 word)) / 0xffffffff"
proof -
  assume "w \<noteq> 0"
  then have "unat w \<noteq> 0" by (simp add: unat_eq_0)
  then have "0 < real (unat w)" by (simp del: of_nat_unat)
  then show ?thesis by (simp del: of_nat_unat)
qed

lemma rng_next_pos: "x \<noteq> 0 \<Longrightarrow> 0 < fst (rng_next x)"
proof -
  assume "x \<noteq> 0"
  then have "snd (rng_next x) \<noteq> 0" by (rule rng_next_nonzero)
  then show ?thesis
    unfolding rng_next_def Let_def fst_conv snd_conv by (rule draw_pos)
qed

lemma rng_draw_range: "x \<noteq> 0 \<Longrightarrow> 0 < rng_draw x n \<and> rng_draw x n \<le> 1"
  by (induction n arbitrary: x) (simp_all add: rng_next_range rng_next_pos rng_next_nonzero)

lemma xorshift_l:
  fixes w :: "32 word"
  shows "unat (w XOR push_bit k w) = (unat w XOR unat w * 2 ^ k) mod 2 ^ 32"
proof -
  have lt: "unat w < 2 ^ 32"
    using unsigned_less [of w, where 'a = nat] by simp
  have "unat (w XOR push_bit k w) = unat w XOR take_bit 32 (push_bit k (unat w))"
    by (simp add: unsigned_xor_eq unsigned_push_bit_eq)
  also have "\<dots> = take_bit 32 (unat w) XOR take_bit 32 (push_bit k (unat w))"
    using lt by (simp add: take_bit_nat_eq_self)
  also have "\<dots> = (unat w XOR unat w * 2 ^ k) mod 2 ^ 32"
    by (simp only: take_bit_xor [symmetric]) (simp only: take_bit_eq_mod push_bit_eq_mult)
  finally show ?thesis .
qed

lemma xorshift_r:
  fixes w :: "32 word"
  shows "unat (w XOR drop_bit k w) = unat w XOR unat w div 2 ^ k"
  by (simp only: unsigned_xor_eq unat_drop_bit_eq) (simp only: drop_bit_eq_div)

lemma rng_next_spec:
  "unat (snd (rng_next x)) = xorshift32_spec (unat x) \<and>
   fst (rng_next x) = real (xorshift32_spec (unat x)) / (2 ^ 32 - 1)"
proof -
  have "unat (snd (rng_next x)) = xorshift32_spec (unat x)"
    unfolding rng_next_def xorshift32_spec_def Let_def snd_conv
    by (simp only: xorshift_l xorshift_r)
  moreover have "fst (rng_next x) = real (unat (snd (rng_next x))) / (2 ^ 32 - 1)"
    unfolding rng_next_def Let_def snd_conv fst_conv by simp
  ultimately show ?thesis by (simp del: of_nat_unat)
qed

subsection \<open>Directions\<close>

lemma Math_atan2_range: "- pi < Math_atan2 dy dx \<and> Math_atan2 dy dx \<le> pi"
proof -
  have b: "- (pi / 2) < arctan (dy / dx)" "arctan (dy / dx) < pi / 2"
    using arctan_bounded [of "dy / dx"] by simp_all
  have p: "0 < pi" by simp
  consider (right) "0 < dx" | (upper) "dx < 0" "0 \<le> dy" | (lower) "dx < 0" "dy < 0"
    | (axis) "dx = 0"
    by linarith
  then show ?thesis
  proof cases
    case right
    then have "Math_atan2 dy dx = arctan (dy / dx)" by (simp add: Math_atan2_def)
    with b p show ?thesis by linarith
  next
    case upper
    then have "dy / dx \<le> 0" by (simp add: divide_nonneg_neg)
    then have "arctan (dy / dx) \<le> 0" by simp
    moreover have "Math_atan2 dy dx = arctan (dy / dx) + pi"
      using upper by (simp add: Math_atan2_def)
    ultimately show ?thesis using b p by linarith
  next
    case lower
    then have "0 < dy / dx" by (simp add: divide_neg_neg)
    then have "0 < arctan (dy / dx)" by simp
    moreover have "Math_atan2 dy dx = arctan (dy / dx) - pi"
      using lower by (simp add: Math_atan2_def)
    ultimately show ?thesis using b p by linarith
  next
    case axis
    then have "Math_atan2 dy dx = pi / 2 \<or> Math_atan2 dy dx = - (pi / 2) \<or> Math_atan2 dy dx = 0"
      by (simp add: Math_atan2_def)
    with p show ?thesis by linarith
  qed
qed

lemma direction8_formula:
  "direction8 dx dy = Math_round (Math_atan2 dy dx / (pi / 4)) mod 8"
proof -
  let ?q = "Math_atan2 dy dx / (pi / 4)"
  have "- pi < Math_atan2 dy dx" using Math_atan2_range by simp
  then have "- 4 < ?q"
    by (simp add: field_simps)
  then have "- 4 \<le> Math_round ?q"
    unfolding Math_round_def by linarith
  then have "0 \<le> Math_round ?q + 8" by simp
  then have "js_rem (Math_round ?q + 8) 8 = (Math_round ?q + 8) mod 8"
    by (simp add: js_rem_nonneg)
  then show ?thesis
    by (simp add: direction8_def Let_def)
qed

lemma direction8_east: "0 < dx \<Longrightarrow> direction8 dx 0 = 0"
  by (simp add: direction8_def Math_atan2_def Math_round_def js_rem_def)

lemma direction8_up: "dy < 0 \<Longrightarrow> direction8 0 dy = 6"
  by (simp add: direction8_def Math_atan2_def Math_round_def js_rem_def)

lemma direction8_down: "0 < dy \<Longrightarrow> direction8 0 dy = 2"
  by (simp add: direction8_def Math_atan2_def Math_round_def js_rem_def)

lemma direction8_west: "dx < 0 \<Longrightarrow> direction8 dx 0 = 4"
  by (simp add: direction8_def Math_atan2_def Math_round_def js_rem_def)

lemma arctan_4_bounds: "3 * pi / 8 \<le> arctan 4 \<and> arctan 4 < pi / 2"
proof -
  have "2 * arctan (1 / 4) = arctan ((2 * (1 / 4)) / (1 - (1 / 4)\<^sup>2))"
    by (rule arctan_double) simp
  also have "\<dots> = arctan (8 / 15)"
    by (simp add: power2_eq_square)
  also have "\<dots> < arctan 1"
    by (simp add: arctan_less_iff)
  finally have "2 * arctan (1 / 4) < pi / 4"
    by (simp add: arctan_one)
  moreover have "arctan (1 / 4) = pi / 2 - arctan 4"
    using arctan_inverse [of 4] by simp
  ultimately show ?thesis
    using arctan_ubound [of 4] by simp
qed

lemma direction8_a_to_q: "direction8 (- 15) (- 60) = 6"
proof -
  have a: "Math_atan2 (- 60) (- 15) = arctan 4 - pi"
    by (simp add: Math_atan2_def)
  have p: "0 < pi" by simp
  have "- 5 / 2 \<le> (arctan 4 - pi) / (pi / 4)" "(arctan 4 - pi) / (pi / 4) < - 3 / 2"
    using arctan_4_bounds p by (simp_all add: field_simps)
  then have "Math_round ((arctan 4 - pi) / (pi / 4)) = - 2"
    unfolding Math_round_def by linarith
  then show ?thesis
    by (simp add: direction8_def a Let_def js_rem_def)
qed

subsection \<open>Catmull-Rom controls with exponent 0\<close>

lemma catmullRom_alpha_0:
  "catmullRomCubicForSegment p0 p1 p2 p3 0 = uniformControls p0 p1 p2 p3"
  by (simp add: catmullRomCubicForSegment_def uniformControls_def Math_pow_def or1_def Let_def)

lemma segLoop_cubics:
  "map rs_d (segLoop d True pts i rng segs) =
     map rs_d segs @ map (cubicOfSegment pts) [i ..< length pts - 1]"
proof (induction "length pts - 1 - i" arbitrary: i rng segs)
  case 0
  then have stop: "\<not> int i < int (length pts) - 1" and "length pts - 1 \<le> i"
    by linarith+
  then show ?case
    by (subst segLoop.simps) simp
next
  case (Suc n)
  then have go: "int i < int (length pts) - 1" and lt: "i < length pts - 1"
    and n: "n = length pts - 1 - (i + 1)"
    by linarith+
  have p0: "(0 \<le> int i - 1) = (i \<noteq> 0)" by linarith
  have p3: "(Suc (Suc i) < length pts) = (Suc (Suc i) \<noteq> length pts)" using lt by linarith
  show ?case
    apply (subst segLoop.simps)
    apply (simp only: go if_True Let_def)
    apply (subst Suc.hyps(1) [OF n])
    using lt apply (simp add: upt_conv_Cons cubicOfSegment_def catmullRom_alpha_0 p0 p3 Let_def)
    done
qed

lemma segments_cubics:
  "map rs_d (segments name lay d True) =
     (let pts = List.map_filter (getKeyCenter lay) name
      in map (cubicOfSegment pts) [0 ..< length pts - 1])"
  unfolding segments_def Let_def
  by (simp add: segLoop_cubics)

lemma Math_hypot_horizontal: "Math_hypot dx 0 = \<bar>dx\<bar>"
  by (simp add: Math_hypot_def)

lemma Math_hypot_0: "Math_hypot 0 0 = 0"
  by (simp add: Math_hypot_def)

lemma positive_exponent_differs:
  assumes alpha: "0 < alpha"
  shows "c1x (catmullRomCubicForSegment
            \<lparr>pt_x = 76, pt_y = 102, pt_ch = CHR ''q''\<rparr>
            \<lparr>pt_x = 136, pt_y = 102, pt_ch = CHR ''w''\<rparr>
            \<lparr>pt_x = 256, pt_y = 102, pt_ch = CHR ''r''\<rparr>
            \<lparr>pt_x = 256, pt_y = 102, pt_ch = CHR ''r''\<rparr> alpha) < 146"
proof -
  define A :: real where "A = 60 powr alpha"
  define B :: real where "B = 120 powr alpha"
  define C :: real where "C = 2 powr alpha"
  have C: "1 < C"
    unfolding C_def using alpha powr_less_mono [of 0 alpha 2] by simp
  have A: "1 < A"
    unfolding A_def using alpha powr_less_mono [of 0 alpha 60] by simp
  have B: "B = C * A"
    unfolding A_def B_def C_def using powr_mult [of 2 60 alpha] by simp
  have BA: "A < B" using A C unfolding B by simp
  have T: "2 < A + B" using A BA by linarith
  define N :: real where "N = (120 / B - 60 / A) * B"
  have "N = 120 - 60 * C"
    using A C unfolding N_def B by (simp add: field_simps)
  then have N: "N < 60" using C by simp
  define X :: real where "X = N / (A + B)"
  have "N < 30 * (A + B)" using N T by (simp add: algebra_simps)
  then have X: "X < 30" unfolding X_def using T by (simp add: divide_less_eq)
  have "c1x (catmullRomCubicForSegment
            \<lparr>pt_x = 76, pt_y = 102, pt_ch = CHR ''q''\<rparr>
            \<lparr>pt_x = 136, pt_y = 102, pt_ch = CHR ''w''\<rparr>
            \<lparr>pt_x = 256, pt_y = 102, pt_ch = CHR ''r''\<rparr>
            \<lparr>pt_x = 256, pt_y = 102, pt_ch = CHR ''r''\<rparr> alpha)
        = 136 + X / 3"
    using alpha A BA T
    by (simp add: catmullRomCubicForSegment_def Let_def Math_pow_def or1_def Math_hypot_horizontal
        Math_hypot_0 A_def [symmetric] B_def [symmetric] N_def X_def)
  then show ?thesis using X by linarith
qed

lemma dir_aq: "map (\<lambda>s. seg_dir (rs_feat s)) (segments ''aq'' Qwerty d c) = [6]"
proof -
  have "map seg_dir (map rs_feat (segments ''aq'' Qwerty d c)) = [6]"
    unfolding segments_feats
    by (simp add: key_a key_q pairFeatures_def featureOfPair_def direction8_a_to_q)
  then show ?thesis by (simp add: comp_def)
qed

lemma qwr_paths:
  "map rs_d (segments ''qwr'' Qwerty d True) =
     [MoveCubic 76 102 86 102 126 102 136 102,
      MoveCubic 136 102 146 102 276 102 256 102]"
  unfolding segments_cubics
  by (simp add: key_q key_w key_r Let_def upt_rec cubicOfSegment_def uniformControls_def)

subsection \<open>Reading the exports back\<close>

declare decimal.simps [simp del]

lemma hexVal_hexDigit: "k < 16 \<Longrightarrow> hexVal (hexDigit k) = Some k"
proof -
  assume "k < 16"
  then have "k \<in> set [0..<16]" by simp
  then show ?thesis
    by (auto simp: upt_rec hexDigit_def hexVal_def)
qed

lemma consResult_Some [simp]: "consResult c (Some (t, rest)) = Some (c # t, rest)"
  by (simp add: consResult_def)

lemma char_lt_32: "c < CHR 0x20 \<longleftrightarrow> (of_char c :: nat) < 32"
  by (simp add: less_char_def)

lemma parse_quoteChar:
  "parseStringBody (quoteChar c @ t) = consResult c (parseStringBody t)"
proof -
  consider (special) "c \<in> {CHR 0x08, CHR 0x09, CHR 0x0A, CHR 0x0C, CHR 0x0D, CHR 0x22, CHR 0x5C}"
    | (control) "c \<notin> {CHR 0x08, CHR 0x09, CHR 0x0A, CHR 0x0C, CHR 0x0D, CHR 0x22, CHR 0x5C}" "c < CHR 0x20"
    | (plain) "c \<notin> {CHR 0x08, CHR 0x09, CHR 0x0A, CHR 0x0C, CHR 0x0D, CHR 0x22, CHR 0x5C}" "\<not> c < CHR 0x20"
    by blast
  then show ?thesis
  proof cases
    case special
    then show ?thesis
      by (auto simp: quoteChar_def unescapeChar_def)
  next
    case control
    let ?n = "of_char c :: nat"
    have n: "?n < 32" using control(2) by (simp add: char_lt_32)
    then have hi: "?n div 16 < 16" and lo: "?n mod 16 < 16" by simp_all
    have c: "char_of (16 * (?n div 16) + ?n mod 16) = c" by simp
    have q: "quoteChar c = [CHR 0x5C, CHR ''u'', CHR ''0'', CHR ''0'', hexDigit (?n div 16), hexDigit (?n mod 16)]"
      using control by (simp add: quoteChar_def)
    have z: "hexVal (CHR ''0'') = Some 0" by (simp add: hexVal_def)
    show ?thesis
      unfolding q
      by (simp add: z hexVal_hexDigit [OF hi] hexVal_hexDigit [OF lo] c)
  next
    case plain
    then show ?thesis
      by (simp add: quoteChar_def)
  qed
qed

lemma parseStringBody_quoted:
  "parseStringBody (concat (map quoteChar s) @ CHR 0x22 # rest) = Some (s, rest)"
proof (induction s)
  case Nil
  show ?case by simp
next
  case (Cons c s)
  then show ?case
    by (simp add: parse_quoteChar del: parseStringBody.simps(2))
qed


lemma isDigit_hexDigit: "k < 10 \<Longrightarrow> isDigit (hexDigit k) \<and> (of_char (hexDigit k) :: nat) = 48 + k"
proof -
  assume "k < 10"
  then have "k \<in> set [0..<10]" by simp
  then show ?thesis
    by (auto simp: upt_rec hexDigit_def isDigit_def)
qed

lemma decimal_digits: "list_all isDigit (decimal n)"
proof (induction n rule: decimal.induct)
  case (1 n)
  show ?case
  proof (cases "n < 10")
    case True
    then show ?thesis
      using isDigit_hexDigit [of n] by (subst decimal.simps) simp
  next
    case False
    have "n mod 10 < 10" by simp
    then show ?thesis
      using False 1 isDigit_hexDigit [of "n mod 10"] by (subst decimal.simps) simp
  qed
qed

lemma decimal_nonempty: "decimal n \<noteq> []"
  by (subst decimal.simps) simp

lemma decValue_snoc: "decValue (ds @ [c]) = 10 * decValue ds + (of_char c - 48)"
  by (simp add: decValue_def)

lemma decValue_decimal: "decValue (decimal n) = n"
proof (induction n rule: decimal.induct)
  case (1 n)
  show ?case
  proof (cases "n < 10")
    case True
    then show ?thesis
      using isDigit_hexDigit [of n] by (subst decimal.simps) (simp add: decValue_def)
  next
    case False
    have "n mod 10 < 10" by simp
    then have "(of_char (hexDigit (n mod 10)) :: nat) = 48 + n mod 10"
      using isDigit_hexDigit by blast
    then show ?thesis
      using False 1 by (subst decimal.simps) (simp add: decValue_snoc)
  qed
qed

lemma decimal_leading: "hd (decimal n) = CHR ''0'' \<Longrightarrow> length (decimal n) = 1"
proof (induction n rule: decimal.induct)
  case (1 n)
  show ?case
  proof (cases "n < 10")
    case True
    then show ?thesis by (subst decimal.simps) simp
  next
    case False
    then have pos: "0 < n div 10" by simp
    have hd: "hd (decimal n) = hd (decimal (n div 10))"
      using False decimal_nonempty [of "n div 10"] by (subst decimal.simps) simp
    with 1 False have one: "length (decimal (n div 10)) = 1" by simp
    then obtain c where c: "decimal (n div 10) = [c]"
      by (cases "decimal (n div 10)") auto
    with hd 1(2) have "c = CHR ''0''" by simp
    with c have "decValue (decimal (n div 10)) = 0" by (simp add: decValue_def)
    with pos show ?thesis by (simp add: decValue_decimal)
  qed
qed

lemma parseDigits_decimal:
  assumes "numberEnd rest"
  shows "parseDigits (decimal n @ rest) = Some (n, rest)"
proof -
  have nd: "rest = [] \<or> \<not> isDigit (hd rest)" using assms by (auto simp: numberEnd_def)
  have all: "\<forall>c \<in> set (decimal n). isDigit c"
    using decimal_digits [of n] by (simp add: list_all_iff)
  have tw: "takeWhile isDigit (decimal n @ rest) = decimal n"
    using nd all by (cases rest) (simp_all add: takeWhile_append)
  have dw: "dropWhile isDigit (decimal n @ rest) = rest"
    using nd all by (cases rest) (simp_all add: dropWhile_append)
  have lead: "\<not> (hd (decimal n) = CHR ''0'' \<and> 1 < length (decimal n))"
    using decimal_leading [of n] by auto
  show ?thesis
    unfolding parseDigits_def Let_def tw dw
    using assms lead decimal_nonempty [of n]
    by (auto simp: numberEnd_def decValue_decimal)
qed

lemma decimal_not_minus: "hd (decimal n) \<noteq> CHR ''-''"
proof -
  have "isDigit (hd (decimal n))"
    using decimal_digits [of n] decimal_nonempty [of n]
    by (cases "decimal n") simp_all
  then show ?thesis by (auto simp: isDigit_def)
qed

lemma parseNumber_NumberToString:
  assumes "numberEnd rest"
  shows "parseNumber (NumberToString i @ rest) = Some (i, rest)"
proof (cases "i < 0")
  case True
  then show ?thesis
    by (simp add: parseNumber_def NumberToString_def parseDigits_decimal [OF assms])
next
  case False
  obtain c ds where d: "decimal (nat i) = c # ds"
    using decimal_nonempty [of "nat i"] by (cases "decimal (nat i)") auto
  then have "c \<noteq> CHR ''-''" using decimal_not_minus [of "nat i"] by simp
  then have "parseNumber (decimal (nat i) @ rest) =
      map_option (\<lambda>(n, rest). (int n, rest)) (parseDigits (decimal (nat i) @ rest))"
    unfolding d by (simp add: parseNumber_def)
  with False show ?thesis
    by (simp add: NumberToString_def parseDigits_decimal [OF assms])
qed

lemma wsOnly_simps [simp]:
  "wsOnly []" "wsOnly (c # s) \<longleftrightarrow> isWs c \<and> wsOnly s" "wsOnly (s @ t) \<longleftrightarrow> wsOnly s \<and> wsOnly t"
  by (simp_all add: wsOnly_def)

lemma skipWs_lead: "wsOnly lead \<Longrightarrow> \<not> isWs c \<Longrightarrow> skipWs (lead @ c # s) = c # s"
  by (induction lead) (simp_all add: skipWs_def)

lemma skipWs_head: "\<not> isWs c \<Longrightarrow> skipWs (c # s) = c # s"
  by (simp add: skipWs_def)

lemma isWs_simps [simp]:
  "isWs (CHR '' '')" "isWs (CHR 0x0A)"
  "\<not> isWs (CHR 0x22)" "\<not> isWs (CHR ''['')" "\<not> isWs (CHR '']'')" "\<not> isWs (CHR ''{'')"
  "\<not> isWs (CHR ''}'')" "\<not> isWs (CHR '','')" "\<not> isWs (CHR '':'')" "\<not> isWs (CHR ''n'')"
  "\<not> isWs (CHR ''t'')" "\<not> isWs (CHR ''f'')" "\<not> isWs (CHR ''-'')"
  by (simp_all add: isWs_def)

lemma isDigit_not_ws: "isDigit c \<Longrightarrow> \<not> isWs c"
  by (auto simp: isDigit_def isWs_def)

lemma numberEnd_simps [simp]:
  "numberEnd []" "numberEnd (CHR '','' # s)" "numberEnd (CHR '']'' # s)" "numberEnd (CHR ''}'' # s)"
  by (simp_all add: numberEnd_def isDigit_def)

lemma numberEnd_ws: "isWs c \<Longrightarrow> numberEnd (c # s)"
  by (auto simp: numberEnd_def isDigit_def isWs_def)

lemma numberEnd_tail:
  "wsOnly tail \<Longrightarrow> numberEnd (tail @ CHR '']'' # rest) \<and> numberEnd (tail @ CHR ''}'' # rest)"
  by (cases tail) (simp_all add: numberEnd_ws)

lemma NumberToString_head:
  obtains c cs where "NumberToString i = c # cs" "c = CHR ''-'' \<or> isDigit c"
proof -
  obtain d ds where d: "decimal (nat \<bar>i\<bar>) = d # ds"
    using decimal_nonempty [of "nat \<bar>i\<bar>"] by (cases "decimal (nat \<bar>i\<bar>)") auto
  have "isDigit d"
    using decimal_digits [of "nat \<bar>i\<bar>"] unfolding d by simp
  then show ?thesis
    using that d by (cases "i < 0") (auto simp: NumberToString_def abs_if)
qed

lemma parseValue_number:
  assumes "wsOnly lead" "numberEnd rest"
  shows "parseValue (Suc m) (lead @ NumberToString i @ rest) = Some (JNumber i, rest)"
proof -
  obtain c cs where h: "NumberToString i = c # cs" and c: "c = CHR ''-'' \<or> isDigit c"
    by (rule NumberToString_head)
  have nws: "\<not> isWs c" using c isDigit_not_ws by auto
  have sk: "skipWs (lead @ NumberToString i @ rest) = c # cs @ rest"
    unfolding h using skipWs_lead [OF assms(1) nws] by simp
  have ne: "c \<noteq> CHR 0x22" "c \<noteq> CHR ''[''" "c \<noteq> CHR ''{''" "c \<noteq> CHR ''n''" "c \<noteq> CHR ''t''"
    "c \<noteq> CHR ''f''"
    using c by (auto simp: isDigit_def)
  have pn: "parseNumber (c # cs @ rest) = Some (i, rest)"
    using parseNumber_NumberToString [OF assms(2), of i] unfolding h by simp
  show ?thesis
    by (simp add: sk ne pn)
qed

lemma parseValue_literals:
  assumes "wsOnly lead"
  shows "parseValue (Suc m) (lead @ ''null'' @ rest) = Some (JNull, rest)"
    and "parseValue (Suc m) (lead @ ''true'' @ rest) = Some (JBool True, rest)"
    and "parseValue (Suc m) (lead @ ''false'' @ rest) = Some (JBool False, rest)"
  using skipWs_lead [OF assms, of "CHR ''n''"] skipWs_lead [OF assms, of "CHR ''t''"]
    skipWs_lead [OF assms, of "CHR ''f''"]
  by simp_all

lemma parseValue_string:
  assumes "wsOnly lead"
  shows "parseValue (Suc m) (lead @ QuoteJSONString s @ rest) = Some (JString s, rest)"
  using skipWs_lead [OF assms, of "CHR 0x22"]
  by (simp add: QuoteJSONString_def parseStringBody_quoted)

lemma parseValue_empty:
  assumes "wsOnly lead"
  shows "parseValue (Suc m) (lead @ ''[]'' @ rest) = Some (JArray [], rest)"
    and "parseValue (Suc m) (lead @ ''{}'' @ rest) = Some (JObject [], rest)"
  using skipWs_lead [OF assms, of "CHR ''[''"] skipWs_lead [OF assms, of "CHR ''{''"]
  by (simp_all add: skipWs_head)

lemma parseValue_array:
  assumes "wsOnly lead" "wsOnly lead2" "\<not> isWs c" "c \<noteq> CHR '']''"
  shows "parseValue (Suc m) (lead @ CHR ''['' # lead2 @ c # cs) =
    map_option (\<lambda>(vs, rest). (JArray vs, rest)) (parseElements m (lead2 @ c # cs))"
  using skipWs_lead [OF assms(1), of "CHR ''[''"] skipWs_lead [OF assms(2,3)] assms(4)
  by simp

lemma parseValue_object:
  assumes "wsOnly lead" "wsOnly lead2" "\<not> isWs c" "c \<noteq> CHR ''}''"
  shows "parseValue (Suc m) (lead @ CHR ''{'' # lead2 @ c # cs) =
    map_option (\<lambda>(ms, rest). (JObject ms, rest)) (parseMembers m (lead2 @ c # cs))"
  using skipWs_lead [OF assms(1), of "CHR ''{''"] skipWs_lead [OF assms(2,3)] assms(4)
  by simp

lemma parseElements_last:
  assumes "parseValue m s = Some (v, tail @ CHR '']'' # rest)" "wsOnly tail"
  shows "parseElements (Suc m) s = Some ([v], rest)"
  using assms(1) skipWs_lead [OF assms(2), of "CHR '']''"]
  by simp

lemma parseElements_more:
  assumes "parseValue m s = Some (v, CHR '','' # r1)"
  shows "parseElements (Suc m) s = map_option (\<lambda>(vs, rest). (v # vs, rest)) (parseElements m r1)"
  using assms by (simp add: skipWs_head)

lemma parseMembers_key:
  assumes "wsOnly lead"
  shows "parseMembers (Suc m) (lead @ QuoteJSONString k @ CHR '':'' # r2) =
    (case parseValue m r2 of
       None \<Rightarrow> None
     | Some (v, r3) \<Rightarrow>
         (case skipWs r3 of
            [] \<Rightarrow> None
          | d # r4 \<Rightarrow>
              if d = CHR '','' then
                map_option (\<lambda>(ms, rest). ((k, v) # ms, rest)) (parseMembers m r4)
              else if d = CHR ''}'' then Some ([(k, v)], r4)
              else None))"
  using skipWs_lead [OF assms, of "CHR 0x22"]
  by (simp add: QuoteJSONString_def parseStringBody_quoted skipWs_head)

declare parseValue.simps(2) [simp del] parseElements.simps(2) [simp del] parseMembers.simps(2) [simp del]

lemma Serialize_head:
  obtains c cs where "SerializeJSONProperty gap indent v = c # cs"
    "\<not> isWs c" "c \<noteq> CHR '']''" "c \<noteq> CHR ''}''"
proof (cases v)
  case JNull
  with that show ?thesis by simp
next
  case (JBool b)
  with that show ?thesis by (cases b) simp_all
next
  case (JNumber i)
  obtain c cs where "NumberToString i = c # cs" "c = CHR ''-'' \<or> isDigit c"
    by (rule NumberToString_head)
  moreover have "isDigit c \<Longrightarrow> c \<noteq> CHR '']'' \<and> c \<noteq> CHR ''}''"
    by (auto simp: isDigit_def)
  ultimately show ?thesis
    using that [of c cs] JNumber isDigit_not_ws [of c] by auto
next
  case (JString s)
  with that show ?thesis by (simp add: QuoteJSONString_def)
next
  case (JArray vs)
  with that show ?thesis by (cases "vs = []"; cases "gap = []") simp_all
next
  case (JObject ms)
  with that show ?thesis by (cases "ms = []"; cases "gap = []") simp_all
qed

lemma SerializeElements_head:
  assumes "vs \<noteq> []"
  obtains c cs where "SerializeElements gap indent vs = c # cs" "\<not> isWs c" "c \<noteq> CHR '']''"
proof -
  obtain v ws where vs: "vs = v # ws" using assms by (cases vs) auto
  obtain c cs where h: "SerializeJSONProperty gap indent v = c # cs"
    "\<not> isWs c" "c \<noteq> CHR '']''"
    by (rule Serialize_head)
  show ?thesis
    using that [of c] h unfolding vs by (cases ws) simp_all
qed

lemma SerializeMembers_head:
  assumes "ms \<noteq> []"
  obtains cs where "SerializeMembers gap indent ms = CHR 0x22 # cs"
proof -
  obtain k v ws where ms: "ms = (k, v) # ws" using assms by (cases ms) auto
  show ?thesis
    using that unfolding ms by (cases ws) (simp_all add: QuoteJSONString_def)
qed

lemma Serialize_length: "0 < length (SerializeJSONProperty gap indent v)"
  using Serialize_head [of gap indent v] by (metis length_greater_0_conv list.distinct(1))

lemma roundtrip:
  "wsOnly gap \<Longrightarrow> wsOnly indent \<Longrightarrow> wsOnly lead \<Longrightarrow> numberEnd rest \<Longrightarrow>
   length (SerializeJSONProperty gap indent v) \<le> n \<Longrightarrow>
   parseValue n (lead @ SerializeJSONProperty gap indent v @ rest) = Some (v, rest)"
  "vs \<noteq> [] \<Longrightarrow> wsOnly gap \<Longrightarrow> wsOnly indent \<Longrightarrow> wsOnly lead \<Longrightarrow> wsOnly tail \<Longrightarrow>
   length (SerializeElements gap indent vs) < n \<Longrightarrow>
   parseElements n (lead @ SerializeElements gap indent vs @ tail @ CHR '']'' # rest) = Some (vs, rest)"
  "ms \<noteq> [] \<Longrightarrow> wsOnly gap \<Longrightarrow> wsOnly indent \<Longrightarrow> wsOnly lead \<Longrightarrow> wsOnly tail \<Longrightarrow>
   length (SerializeMembers gap indent ms) < n \<Longrightarrow>
   parseMembers n (lead @ SerializeMembers gap indent ms @ tail @ CHR ''}'' # rest) = Some (ms, rest)"
proof (induction gap indent v and gap indent vs and gap indent ms
    arbitrary: n lead rest and n lead tail rest and n lead tail rest
    rule: SerializeJSONProperty_SerializeElements_SerializeMembers.induct)
  case (1 gap indent)
  then obtain m where "n = Suc m" by (cases n) auto
  with 1 show ?case using parseValue_literals(1) [of lead m rest] by simp
next
  case (2 gap indent b)
  then obtain m where "n = Suc m" by (cases n; cases b) auto
  with 2 show ?case
    using parseValue_literals(2) [of lead m rest] parseValue_literals(3) [of lead m rest]
    by (cases b) simp_all
next
  case (3 gap indent i)
  have "0 < length (SerializeJSONProperty gap indent (JNumber i))" by (rule Serialize_length)
  with 3 obtain m where "n = Suc m" by (cases n) auto
  with 3 show ?case by (simp add: parseValue_number)
next
  case (4 gap indent s)
  then obtain m where "n = Suc m" by (cases n) (auto simp: QuoteJSONString_def)
  with 4 show ?case by (simp add: parseValue_string)
next
  case (5 gap indent vs)
  show ?case
  proof (cases "vs = []")
    case True
    with 5 obtain m where "n = Suc m" by (cases n) auto
    with 5 True show ?thesis using parseValue_empty(1) [of lead m rest] by simp
  next
    case False
    obtain c cs where h: "SerializeElements gap (indent @ gap) vs = c # cs"
      "\<not> isWs c" "c \<noteq> CHR '']''"
      using False by (rule SerializeElements_head)
    show ?thesis
    proof (cases "gap = []")
      case True
      with 5(7) False obtain m where n: "n = Suc m"
        and m: "length (SerializeElements gap (indent @ gap) vs) < m"
        by (cases n) auto
      have e: "wsOnly []" and i: "wsOnly (indent @ gap)" using 5(3,4) by simp_all
      have "parseElements m ([] @ SerializeElements gap (indent @ gap) vs @ [] @ CHR '']'' # rest)
          = Some (vs, rest)"
        by (rule 5(1) [OF False True False 5(3) i e e m])
      then have pe: "parseElements m ([] @ c # cs @ CHR '']'' # rest) = Some (vs, rest)"
        unfolding h by simp
      have "parseValue (Suc m) (lead @ CHR ''['' # [] @ c # cs @ CHR '']'' # rest) =
          map_option (\<lambda>(vs, rest). (JArray vs, rest)) (parseElements m ([] @ c # cs @ CHR '']'' # rest))"
        by (rule parseValue_array) (use 5(5) h in simp_all)
      then show ?thesis
        unfolding pe n using False True h(1) by simp
    next
      case gap: False
      let ?lead2 = "CHR 0x0A # indent @ gap"
      let ?tail = "CHR 0x0A # indent"
      from 5(7) False gap obtain m where n: "n = Suc m"
        and m: "length (SerializeElements gap (indent @ gap) vs) < m"
        by (cases n) auto
      have l2: "wsOnly ?lead2" and t: "wsOnly ?tail" and i: "wsOnly (indent @ gap)"
        using 5(3,4) by simp_all
      have "parseElements m (?lead2 @ SerializeElements gap (indent @ gap) vs @ ?tail @ CHR '']'' # rest)
          = Some (vs, rest)"
        by (rule 5(2) [OF False gap False 5(3) i l2 t m])
      then have pe: "parseElements m (?lead2 @ c # cs @ ?tail @ CHR '']'' # rest) = Some (vs, rest)"
        unfolding h by simp
      have "parseValue (Suc m) (lead @ CHR ''['' # ?lead2 @ c # cs @ ?tail @ CHR '']'' # rest) =
          map_option (\<lambda>(vs, rest). (JArray vs, rest))
            (parseElements m (?lead2 @ c # cs @ ?tail @ CHR '']'' # rest))"
        by (rule parseValue_array) (use 5(3,4,5) h in simp_all)
      then show ?thesis
        unfolding pe n using False gap h(1) by simp
    qed
  qed
next
  case (6 gap indent ms)
  show ?case
  proof (cases "ms = []")
    case True
    with 6 obtain m where "n = Suc m" by (cases n) auto
    with 6 True show ?thesis using parseValue_empty(2) [of lead m rest] by simp
  next
    case False
    obtain cs where h: "SerializeMembers gap (indent @ gap) ms = CHR 0x22 # cs"
      using False by (rule SerializeMembers_head)
    show ?thesis
    proof (cases "gap = []")
      case True
      with 6(7) False obtain m where n: "n = Suc m"
        and m: "length (SerializeMembers gap (indent @ gap) ms) < m"
        by (cases n) auto
      have e: "wsOnly []" and i: "wsOnly (indent @ gap)" using 6(3,4) by simp_all
      have "parseMembers m ([] @ SerializeMembers gap (indent @ gap) ms @ [] @ CHR ''}'' # rest)
          = Some (ms, rest)"
        by (rule 6(1) [OF False True False 6(3) i e e m])
      then have pe: "parseMembers m ([] @ CHR 0x22 # cs @ CHR ''}'' # rest) = Some (ms, rest)"
        unfolding h by simp
      have "parseValue (Suc m) (lead @ CHR ''{'' # [] @ CHR 0x22 # cs @ CHR ''}'' # rest) =
          map_option (\<lambda>(ms, rest). (JObject ms, rest))
            (parseMembers m ([] @ CHR 0x22 # cs @ CHR ''}'' # rest))"
        by (rule parseValue_object) (use 6(5) in simp_all)
      then show ?thesis
        unfolding pe n using False True h(1) by simp
    next
      case gap: False
      let ?lead2 = "CHR 0x0A # indent @ gap"
      let ?tail = "CHR 0x0A # indent"
      from 6(7) False gap obtain m where n: "n = Suc m"
        and m: "length (SerializeMembers gap (indent @ gap) ms) < m"
        by (cases n) auto
      have l2: "wsOnly ?lead2" and t: "wsOnly ?tail" and i: "wsOnly (indent @ gap)"
        using 6(3,4) by simp_all
      have "parseMembers m (?lead2 @ SerializeMembers gap (indent @ gap) ms @ ?tail @ CHR ''}'' # rest)
          = Some (ms, rest)"
        by (rule 6(2) [OF False gap False 6(3) i l2 t m])
      then have pe: "parseMembers m (?lead2 @ CHR 0x22 # cs @ ?tail @ CHR ''}'' # rest) = Some (ms, rest)"
        unfolding h by simp
      have "parseValue (Suc m) (lead @ CHR ''{'' # ?lead2 @ CHR 0x22 # cs @ ?tail @ CHR ''}'' # rest) =
          map_option (\<lambda>(ms, rest). (JObject ms, rest))
            (parseMembers m (?lead2 @ CHR 0x22 # cs @ ?tail @ CHR ''}'' # rest))"
        by (rule parseValue_object) (use 6(3,4,5) in simp_all)
      then show ?thesis
        unfolding pe n using False gap h(1) by simp
    qed
  qed
next
  case (7 gap indent)
  then show ?case by simp
next
  case (8 gap indent v)
  from 8(7) obtain m where n: "n = Suc m"
    and m: "length (SerializeJSONProperty gap indent v) \<le> m"
    by (cases n) auto
  have ne: "numberEnd (tail @ CHR '']'' # rest)" using numberEnd_tail [OF 8(6)] by simp
  have "parseValue m (lead @ SerializeJSONProperty gap indent v @ tail @ CHR '']'' # rest)
      = Some (v, tail @ CHR '']'' # rest)"
    by (rule 8(1) [OF 8(3,4,5) ne m])
  then show ?case
    unfolding n using parseElements_last [OF _ 8(6)] by simp
next
  case (9 gap indent v w vs)
  let ?sep = "if gap = [] then [] else CHR 0x0A # indent"
  let ?X = "SerializeElements gap indent (w # vs) @ tail @ CHR '']'' # rest"
  have lv: "0 < length (SerializeJSONProperty gap indent v)" by (rule Serialize_length)
  from 9(8) obtain m where n: "n = Suc m"
    and mv: "length (SerializeJSONProperty gap indent v) \<le> m"
    and mr: "length (SerializeElements gap indent (w # vs)) < m"
    using lv by (cases n) (auto split: if_splits)
  have ne: "numberEnd (CHR '','' # ?sep @ ?X)" by simp
  have ls: "wsOnly ?sep" using 9(5) by simp
  have nonempty: "w # vs \<noteq> []" by simp
  have "parseValue m (lead @ SerializeJSONProperty gap indent v @ CHR '','' # ?sep @ ?X)
      = Some (v, CHR '','' # ?sep @ ?X)"
    by (rule 9(1) [OF 9(4,5,6) ne mv])
  then have "parseElements (Suc m) (lead @ SerializeJSONProperty gap indent v @ CHR '','' # ?sep @ ?X)
      = map_option (\<lambda>(vs, rest). (v # vs, rest)) (parseElements m (?sep @ ?X))"
    by (rule parseElements_more)
  moreover have "parseElements m (?sep @ ?X) = Some (w # vs, rest)"
    by (rule 9(2) [OF nonempty 9(4,5) ls 9(7) mr])
  ultimately show ?case
    unfolding n by (cases "gap = []") simp_all
next
  case (10 gap indent)
  then show ?case by simp
next
  case (11 gap indent k v)
  let ?sp = "if gap = [] then [] else '' ''"
  from 11(7) obtain m where n: "n = Suc m"
    and m: "length (SerializeJSONProperty gap indent v) \<le> m"
    by (cases n) auto
  have ne: "numberEnd (tail @ CHR ''}'' # rest)" using numberEnd_tail [OF 11(6)] by simp
  have lsp: "wsOnly ?sp" by simp
  have pv: "parseValue m (?sp @ SerializeJSONProperty gap indent v @ tail @ CHR ''}'' # rest)
      = Some (v, tail @ CHR ''}'' # rest)"
    by (rule 11(1) [OF 11(3,4) lsp ne m])
  have "parseMembers (Suc m) (lead @ QuoteJSONString k @ CHR '':'' #
      (?sp @ SerializeJSONProperty gap indent v @ tail @ CHR ''}'' # rest)) = Some ([(k, v)], rest)"
    unfolding parseMembers_key [OF 11(5)] pv
    using skipWs_lead [OF 11(6), of "CHR ''}''"] by simp
  then show ?case
    unfolding n by (cases "gap = []") simp_all
next
  case (12 gap indent k v m ms)
  let ?sp = "if gap = [] then [] else '' ''"
  let ?sep = "if gap = [] then [] else CHR 0x0A # indent"
  let ?X = "SerializeMembers gap indent (m # ms) @ tail @ CHR ''}'' # rest"
  from 12(8) obtain j where n: "n = Suc j"
    and mv: "length (SerializeJSONProperty gap indent v) \<le> j"
    and mr: "length (SerializeMembers gap indent (m # ms)) < j"
    by (cases n) (auto split: if_splits simp: QuoteJSONString_def)
  have ne: "numberEnd (CHR '','' # ?sep @ ?X)" by simp
  have lsp: "wsOnly ?sp" by simp
  have ls: "wsOnly ?sep" using 12(5) by simp
  have nonempty: "m # ms \<noteq> []" by simp
  have pv: "parseValue j (?sp @ SerializeJSONProperty gap indent v @ CHR '','' # ?sep @ ?X)
      = Some (v, CHR '','' # ?sep @ ?X)"
    by (rule 12(1) [OF 12(4,5) lsp ne mv])
  have pm: "parseMembers j (?sep @ ?X) = Some (m # ms, rest)"
    by (rule 12(2) [OF nonempty 12(4,5) ls 12(7) mr])
  have "parseMembers (Suc j) (lead @ QuoteJSONString k @ CHR '':'' #
      (?sp @ SerializeJSONProperty gap indent v @ CHR '','' # ?sep @ ?X)) = Some ((k, v) # m # ms, rest)"
    unfolding parseMembers_key [OF 12(6)] pv
    by (simp add: skipWs_head pm)
  then show ?case
    unfolding n by (cases "gap = []") simp_all
qed

lemma unescape_escape_char: "unescapeXml (escapeXml_char c @ t) = c # unescapeXml t"
  by (simp add: escapeXml_char_def)

lemma unescapeXml_escapeXml: "unescapeXml (escapeXml s) = s"
  by (induction s) (simp_all add: escapeXml_def unescape_escape_char del: unescapeXml.simps(2))

lemma escapeXml_char_plain:
  "escapeXml_char c = [c] \<longleftrightarrow> c \<notin> {CHR ''<'', CHR ''>'', CHR ''&'', CHR 0x27, CHR 0x22}"
  by (auto simp: escapeXml_char_def)

lemma escapeXml_char_clean:
  "set (escapeXml_char c) \<inter> {CHR ''<'', CHR ''>'', CHR 0x27, CHR 0x22} = {}"
  by (auto simp: escapeXml_char_def)

lemma escapeXml_clean: "set (escapeXml s) \<inter> {CHR ''<'', CHR ''>'', CHR 0x27, CHR 0x22} = {}"
  using escapeXml_char_clean by (induction s) (auto simp: escapeXml_def)

lemma classOfLabel_classLabel: "classOfLabel (classLabel k) = Some k"
  by (cases k) (simp_all add: classOfLabel_def)

lemma layoutOfId_layoutId: "layoutOfId (layoutId l) = Some l"
  by (cases l) (simp add: layoutOfId_def)

lemma dashOfLabel_dashLabel: "dashOfLabel (dashLabel d) = Some d"
  by (cases d) (simp_all add: dashOfLabel_def dashLabel_def)

lemma segOfJson_segToJson: "segOfJson (segToJson s) = Some s"
  by (simp add: segOfJson_def segToJson_def jsonField_def asChar_def asString_def asInt_def asNat_def
      classOfLabel_classLabel)

lemma segsOfJson_map: "segsOfJson (map segToJson ss) = Some ss"
  by (induction ss) (simp_all add: segOfJson_segToJson)

lemma codecOfJson_codecToJson: "codecOfJson (codecToJson c) = Some c"
  by (simp add: codecOfJson_def codecToJson_def jsonField_def asString_def asNat_def asArray_def
      layoutOfId_layoutId dashOfLabel_dashLabel segsOfJson_map)

lemma JSON_parse_stringify: "JSON_parse (JSON_stringify v space) = Some v"
proof -
  let ?gap = "replicate (min space 10) (CHR '' '')"
  have g: "wsOnly ?gap" by (simp add: wsOnly_def list_all_iff)
  have e: "wsOnly []" by simp
  have ne: "numberEnd []" by simp
  have "parseValue (length (SerializeJSONProperty ?gap [] v))
      ([] @ SerializeJSONProperty ?gap [] v @ []) = Some (v, [])"
    by (rule roundtrip(1) [OF g e e ne order_refl])
  then show ?thesis
    by (simp add: JSON_parse_def JSON_stringify_def skipWs_def)
qed

lemma readMetadata_export:
  "readMetadata (svgOpen @ escapeXml j @ svgClose) = Some j"
proof -
  have "CHR ''<'' \<notin> set (escapeXml j)"
    using escapeXml_clean [of j] by auto
  then have "takeWhile (\<lambda>c. c \<noteq> CHR ''<'') (escapeXml j @ svgClose) = escapeXml j"
    by (simp add: takeWhile_append svgClose_def)
  then show ?thesis
    by (simp add: readMetadata_def unescapeXml_escapeXml)
qed

section \<open>The claims\<close>

text \<open>
  Claim C1.  The codec of a name, a layout and a dash mode is the same in straight and in
  Catmull-Rom curve mode: it is \<open>None\<close> when fewer than two characters resolve, and
  otherwise the record built from the name, the layout, the dash mode and the features
  \<open>{a, b, cls, dir, lb}\<close> of the consecutive pairs of resolved points.  Neither the curve
  mode nor the colour (which the program computes from the pair and the length, with no
  setting, and stores in the render segment only) enters it; the record's \<open>color\<close> field is
  the constant name of the colour scheme.
\<close>

theorem codec_styling_independent:
  "codec name lay dashAbc True = codec name lay dashAbc False \<and>
   codec name lay dashAbc curve =
     (let pts = List.map_filter (getKeyCenter lay) name
      in if length pts < 2 then None
         else Some (buildCodec name lay dashAbc (pairFeatures pts))) \<and>
   map rs_feat (segments name lay dashAbc curve) =
     pairFeatures (List.map_filter (getKeyCenter lay) name) \<and>
   codec_color (buildCodec name lay dashAbc fs) = ''bigram-hsl-v1''"
  by (simp add: codec_explicit [of name lay dashAbc True] codec_explicit [of name lay dashAbc False]
      codec_explicit [of name lay dashAbc curve] segments_feats buildCodec_def Let_def)

text \<open>
  Claim C2.  \<open>buildCodec\<close> sets \<open>hash\<close> to the 32-bit FNV-1a hash of the layout id, a bar and
  the lower-cased name, written as exactly eight lowercase hexadecimal digits (padded with
  zeros: read back as a number, the field is the hash), and sets \<open>len\<close> to the number of
  characters of the raw name.  For \<open>Ab_3\<close> on qwerty the hashed string is \<open>qwerty|ab_3\<close> and
  the field is \<open>d03d7372\<close>; for \<open>A!b\<close>, where two characters resolve, \<open>len\<close> is 3.
\<close>

theorem buildCodec_hash_len:
  "codec_hash (buildCodec name lay dashAbc segs) =
     padStart 8 (CHR ''0'') (toString16 (fnv1a32 (layoutId lay @ ''|'' @ toLowerCase name))) \<and>
   unat (hash32 s) = fnv1a32 s \<and>
   length (codec_hash (buildCodec name lay dashAbc segs)) = 8 \<and>
   set (codec_hash (buildCodec name lay dashAbc segs)) \<subseteq> set ''0123456789abcdef'' \<and>
   hexValue (codec_hash (buildCodec name lay dashAbc segs)) =
     fnv1a32 (layoutId lay @ ''|'' @ toLowerCase name) \<and>
   codec_len (buildCodec name lay dashAbc segs) = length name \<and>
   layoutId Qwerty @ ''|'' @ toLowerCase ''Ab_3'' = ''qwerty|ab_3'' \<and>
   codec_hash (buildCodec ''Ab_3'' Qwerty dashAbc segs) =
     padStart 8 (CHR ''0'') (toString16 (unat (hash32 ''qwerty|ab_3''))) \<and>
   codec_hash (buildCodec ''Ab_3'' Qwerty dashAbc segs) = ''d03d7372'' \<and>
   map_option codec_hash (codec ''Ab_3'' Qwerty dashAbc curve) = Some ''d03d7372'' \<and>
   map_option codec_len (codec ''Ab_3'' Qwerty dashAbc curve) = Some 4 \<and>
   length (filter (resolves Qwerty) ''A!b'') = 2 \<and>
   map_option codec_len (codec ''A!b'' Qwerty dashAbc curve) = Some 3"
proof -
  let ?h = "fnv1a32 (layoutId lay @ ''|'' @ toLowerCase name)"
  have lt: "?h < 2 ^ 32"
    using unat32_le [of "hash32 (layoutId lay @ ''|'' @ toLowerCase name)"]
    unfolding hash32_fnv by simp
  have h: "codec_hash (buildCodec name lay dashAbc segs) =
      padStart 8 (CHR ''0'') (toString16 ?h)"
    by (simp add: buildCodec_def Let_def hash32_fnv)
  have low: "layoutId Qwerty @ ''|'' @ toLowerCase ''Ab_3'' = ''qwerty|ab_3''"
    by (simp add: toLowerCase_def toLowerCase_char_def char_of_nat_bits)
  have ex: "codec_hash (buildCodec ''Ab_3'' Qwerty dashAbc fs) = ''d03d7372''" for fs
    unfolding buildCodec_def Let_def low
    by (simp add: hash32_def toString16.simps hexDigit_def padStart_def)
  have r4: "filter (resolves Qwerty) ''Ab_3'' = ''Ab_3''"
    by (simp add: resolves_def getKeyCenter_def isLetter_def toUpperCase_char_def
        char_of_nat_bits)
  have r2: "filter (resolves Qwerty) ''A!b'' = ''Ab''"
    by (simp add: resolves_def getKeyCenter_def isLetter_def toUpperCase_char_def
        char_of_nat_bits)
  have c4: "codec ''Ab_3'' Qwerty dashAbc curve =
      Some (buildCodec ''Ab_3'' Qwerty dashAbc
        (pairFeatures (List.map_filter (getKeyCenter Qwerty) ''Ab_3'')))"
    unfolding codec_explicit Let_def resolved_count r4 by simp
  have c2: "codec ''A!b'' Qwerty dashAbc curve =
      Some (buildCodec ''A!b'' Qwerty dashAbc
        (pairFeatures (List.map_filter (getKeyCenter Qwerty) ''A!b'')))"
    unfolding codec_explicit Let_def resolved_count r2 by simp
  have len: "codec_len (buildCodec nm l dashAbc fs) = length nm" for nm l fs
    by (simp add: buildCodec_def Let_def)
  have p3: "length (codec_hash (buildCodec name lay dashAbc segs)) = 8"
    and p4: "set (codec_hash (buildCodec name lay dashAbc segs)) \<subseteq> set ''0123456789abcdef''"
    and p5: "hexValue (codec_hash (buildCodec name lay dashAbc segs)) = ?h"
    unfolding h using hex8 [OF lt] by blast+
  have p8: "codec_hash (buildCodec ''Ab_3'' Qwerty dashAbc segs) =
     padStart 8 (CHR ''0'') (toString16 (unat (hash32 ''qwerty|ab_3'')))"
    unfolding buildCodec_def Let_def low by simp
  have p10: "map_option codec_hash (codec ''Ab_3'' Qwerty dashAbc curve) = Some ''d03d7372''"
    unfolding c4 by (simp only: option.map ex)
  have p11: "map_option codec_len (codec ''Ab_3'' Qwerty dashAbc curve) = Some 4"
    unfolding c4 by (simp only: option.map len) simp
  have p12: "length (filter (resolves Qwerty) ''A!b'') = 2"
    unfolding r2 by simp
  have p13: "map_option codec_len (codec ''A!b'' Qwerty dashAbc curve) = Some 3"
    unfolding c2 by (simp only: option.map len) simp
  show ?thesis
    by (intro conjI h hash32_fnv p3 p4 p5 len low p8 ex p10 p11 p12 p13)
qed

text \<open>
  Claim C3.  \<open>classifyPair\<close> is the specification's five-rule classifier: \<open>NUM\<close> when either
  character is a digit or the underscore; otherwise \<open>UU\<close> for two uppercase letters, \<open>LL\<close>
  for two lowercase letters, \<open>UL\<close> for uppercase then lowercase, and \<open>LU\<close> in the remaining
  case.  The six examples of the specification evaluate as stated.
\<close>

theorem classifyPair_rules:
  "classifyPair a b = classify_spec a b \<and>
   classifyPair (CHR ''A'') (CHR ''A'') = UU \<and>
   classifyPair (CHR ''a'') (CHR ''a'') = LL \<and>
   classifyPair (CHR ''A'') (CHR ''a'') = UL \<and>
   classifyPair (CHR ''a'') (CHR ''A'') = LU \<and>
   classifyPair (CHR ''1'') (CHR ''A'') = NUM \<and>
   classifyPair (CHR ''_'') (CHR ''b'') = NUM"
proof -
  have "classifyPair a b = classify_spec a b"
    unfolding classifyPair_def classify_spec_def
      uppercase_letter_def lowercase_letter_def digit_or_underscore_def
      isUpper_iff isLower_iff isNumOrUnd_iff ..
  moreover have "classifyPair (CHR ''A'') (CHR ''A'') = UU"
    "classifyPair (CHR ''a'') (CHR ''a'') = LL"
    "classifyPair (CHR ''A'') (CHR ''a'') = UL"
    "classifyPair (CHR ''a'') (CHR ''A'') = LU"
    "classifyPair (CHR ''1'') (CHR ''A'') = NUM"
    "classifyPair (CHR ''_'') (CHR ''b'') = NUM"
    by (simp_all add: classifyPair_def isNumOrUnd_def isUpper_def isLower_def)
  ultimately show ?thesis by simp
qed

text \<open>
  Claim C4 (the program departs from it).  \<open>direction8\<close> is
  \<open>round (atan2 dy dx / (pi / 4))\<close> modulo 8, and a rightward segment has direction 0.  A
  purely upward segment on the screen (\<open>dx = 0\<close>, \<open>dy < 0\<close>) has direction 6, not 2; direction
  2 is that of a downward segment.  The segment of the name \<open>aq\<close>, from the key \<open>a\<close> up to
  the key \<open>q\<close>, has direction 6.
\<close>

theorem direction8_axes:
  "direction8 dx dy = Math_round (Math_atan2 dy dx / (pi / 4)) mod 8 \<and>
   direction8 60 0 = 0 \<and>
   direction8 0 (- 60) = 6 \<and>
   direction8 0 60 = 2 \<and>
   direction8 (- 60) 0 = 4 \<and>
   map (\<lambda>s. seg_dir (rs_feat s)) (segments ''aq'' Qwerty dashAbc curve) = [6]"
  using direction8_formula [of dx dy] direction8_east [of 60] direction8_up [of "- 60"]
    direction8_down [of 60] direction8_west [of "- 60"] dir_aq [of dashAbc curve]
  by simp

text \<open>
  Claim C5, amended.  \<open>makeRng\<close> starts from the FNV-1a hash of the seed, or from 1 when
  that hash is 0; each call applies the 32-bit xorshift (left 13, right 17, left 5) and
  returns the new state divided by \<open>2 ^ 32 - 1\<close>.  Every value a call returns lies in the
  closed interval from 0 to 1 (and is positive, the state never being 0); the value 1 is
  returned when the new state is \<open>0xffffffff\<close>.
\<close>

theorem rng_draw_closed_range:
  "unat (makeRng seed) = (if fnv1a32 seed = 0 then 1 else fnv1a32 seed) \<and>
   unat (snd (rng_next x)) = xorshift32_spec (unat x) \<and>
   fst (rng_next x) = real (xorshift32_spec (unat x)) / (2 ^ 32 - 1) \<and>
   0 \<le> fst (rng_next x) \<and> fst (rng_next x) \<le> 1 \<and>
   0 < rng_draw (makeRng seed) n \<and> rng_draw (makeRng seed) n \<le> 1"
proof -
  have "unat (makeRng seed) = (if fnv1a32 seed = 0 then 1 else fnv1a32 seed)"
    unfolding hash32_fnv [symmetric] by (simp add: makeRng_def or1_def unat_eq_0)
  then show ?thesis
    using rng_next_spec [of x] rng_next_range [of x]
      rng_draw_range [OF makeRng_nonzero, of seed n]
    by blast
qed

text \<open>
  The claim as stated fails: the first value drawn for the seed of the name \<open>hiiccrzu\<close> on
  qwerty is 1, which is not below 1.
\<close>

theorem rng_draw_reaches_one:
  "rng_draw (makeRng ''key-sign:hiiccrzu:qwerty'') 0 = 1 \<and>
   \<not> rng_draw (makeRng ''key-sign:hiiccrzu:qwerty'') 0 < 1"
proof -
  have "makeRng ''key-sign:hiiccrzu:qwerty'' = 0x5e6cfce7"
    by (simp add: makeRng_def hash32_def or1_def)
  moreover have "rng_next 0x5e6cfce7 = (1, 0xffffffff)"
    by (simp add: rng_next_def Let_def)
  ultimately show ?thesis by simp
qed

text \<open>
  Claim C6.  With \<open>k\<close> the number of characters of the name that resolve: for \<open>k \<ge> 2\<close> the
  segment list has \<open>k - 1\<close> segments and a codec is produced; for \<open>k < 2\<close> the segment list
  is empty and no codec is produced.  The segments join the consecutive resolved
  characters: unresolved characters are skipped and do not break adjacency.  (The model
  has no error value: every array read of the loop is inside the array.)
\<close>

theorem segment_count:
  "(let k = length (filter (resolves lay) name);
        segs = segments name lay dashAbc curve
    in (if 2 \<le> k then length segs = k - 1 \<and> codec name lay dashAbc curve \<noteq> None
        else segs = [] \<and> codec name lay dashAbc curve = None) \<and>
       map (\<lambda>s. (seg_a (rs_feat s), seg_b (rs_feat s))) segs =
         zip (filter (resolves lay) name) (tl (filter (resolves lay) name)))"
proof -
  let ?r = "filter (resolves lay) name"
  let ?pts = "List.map_filter (getKeyCenter lay) name"
  let ?segs = "segments name lay dashAbc curve"
  have len: "length ?segs = length ?r - 1"
    by (simp add: segments_length resolved_count)
  have nonempty: "2 \<le> length ?r \<Longrightarrow> name \<noteq> []"
    by auto
  have cd: "codec name lay dashAbc curve = None \<longleftrightarrow> \<not> 2 \<le> length ?r"
    using len nonempty unfolding codec_def Let_def by (auto simp: Let_def)
  have "map (\<lambda>s. (seg_a (rs_feat s), seg_b (rs_feat s))) ?segs
      = map (\<lambda>f. (seg_a f, seg_b f)) (map rs_feat ?segs)"
    by simp
  also have "\<dots> = map (\<lambda>k. (map pt_ch ?pts ! k, map pt_ch ?pts ! Suc k))
      [0 ..< length (map pt_ch ?pts) - 1]"
    unfolding segments_feats pairFeatures_def by (simp add: featureOfPair_def)
  also have "\<dots> = zip ?r (tl ?r)"
    unfolding pairs_zip resolved_chars ..
  finally have adj: "map (\<lambda>s. (seg_a (rs_feat s), seg_b (rs_feat s))) ?segs = zip ?r (tl ?r)" .
  show ?thesis
    unfolding Let_def using len cd adj by auto
qed

theorem segment_count_witness:
  "length (segments ''q!w'' Qwerty True False) = 1 \<and>
   codec ''q!w'' Qwerty True False \<noteq> None \<and>
   segments ''q!'' Qwerty True False = [] \<and>
   codec ''q!'' Qwerty True False = None \<and>
   map (\<lambda>s. (seg_a (rs_feat s), seg_b (rs_feat s))) (segments ''q!w'' Qwerty True False) =
     [(CHR ''q'', CHR ''w'')]"
proof -
  have r1: "filter (resolves Qwerty) ''q!w'' = ''qw''"
    by (simp add: resolves_def getKeyCenter_def isLetter_def toUpperCase_char_def
        char_of_nat_bits)
  have r2: "filter (resolves Qwerty) ''q!'' = ''q''"
    by (simp add: resolves_def getKeyCenter_def isLetter_def toUpperCase_char_def
        char_of_nat_bits)
  show ?thesis
    using segment_count [of Qwerty "''q!w''" True False]
      segment_count [of Qwerty "''q!''" True False]
    unfolding r1 r2 Let_def by simp
qed

text \<open>
  Claim C7.  \<open>lengthBin\<close> is 0 exactly below 40, 1 exactly from 40 to below 80, 2 exactly from
  80 to below 120 and 3 exactly from 120 on; the lengths 39.9, 40, 79.9, 80, 119.9 and 120
  fall into the bins 0, 1, 1, 2, 2 and 3.
\<close>

theorem lengthBin_bins:
  "(lengthBin len = 0 \<longleftrightarrow> len < 40) \<and>
   (lengthBin len = 1 \<longleftrightarrow> 40 \<le> len \<and> len < 80) \<and>
   (lengthBin len = 2 \<longleftrightarrow> 80 \<le> len \<and> len < 120) \<and>
   (lengthBin len = 3 \<longleftrightarrow> 120 \<le> len) \<and>
   map lengthBin [39.9, 40, 79.9, 80, 119.9, 120] = [0, 1, 1, 2, 2, 3]"
  by (simp add: lengthBin_def)

text \<open>
  Claim C8 (the program departs from it).  In Catmull-Rom mode the program calls
  \<open>catmullRomCubicForSegment\<close> with the exponent 0, so every distance factor is 1 and the
  controls are the uniform ones, in which no distance occurs; the missing neighbour of the
  first and of the last segment is the segment's own endpoint.  For the name \<open>qwr\<close> the first
  control of the second segment has \<open>x = 146\<close>, where the exponent of the function's
  signature (0.2) and that of its comment (0.5) both give less.
\<close>

theorem catmullRom_exponent_zero:
  "catmullRomCubicForSegment p0 p1 p2 p3 0 = uniformControls p0 p1 p2 p3 \<and>
   map rs_d (segments name lay dashAbc True) =
     (let pts = List.map_filter (getKeyCenter lay) name
      in map (cubicOfSegment pts) [0 ..< length pts - 1]) \<and>
   map rs_d (segments ''qwr'' Qwerty dashAbc True) =
     [MoveCubic 76 102 86 102 126 102 136 102, MoveCubic 136 102 146 102 276 102 256 102] \<and>
   c1x (catmullRomCubicForSegment
          \<lparr>pt_x = 76, pt_y = 102, pt_ch = CHR ''q''\<rparr> \<lparr>pt_x = 136, pt_y = 102, pt_ch = CHR ''w''\<rparr>
          \<lparr>pt_x = 256, pt_y = 102, pt_ch = CHR ''r''\<rparr> \<lparr>pt_x = 256, pt_y = 102, pt_ch = CHR ''r''\<rparr>
          catmullRom_default_alpha) < 146 \<and>
   c1x (catmullRomCubicForSegment
          \<lparr>pt_x = 76, pt_y = 102, pt_ch = CHR ''q''\<rparr> \<lparr>pt_x = 136, pt_y = 102, pt_ch = CHR ''w''\<rparr>
          \<lparr>pt_x = 256, pt_y = 102, pt_ch = CHR ''r''\<rparr> \<lparr>pt_x = 256, pt_y = 102, pt_ch = CHR ''r''\<rparr>
          (1 / 2)) < 146"
proof -
  have "0 < catmullRom_default_alpha" "(0::real) < 1 / 2"
    by (simp_all add: catmullRom_default_alpha_def)
  then show ?thesis
    using catmullRom_alpha_0 [of p0 p1 p2 p3] segments_cubics [of name lay dashAbc]
      qwr_paths [of dashAbc] positive_exponent_differs
    by blast
qed

text \<open>
  Claim C9.  The structured-text export of a codec, parsed as JSON, and the text of the
  \<^verbatim>\<open>metadata\<close> element of the embeddable export, entity-decoded and parsed as JSON, both
  give back the record.  \<open>escapeXml\<close> replaces each of the five characters
  \<^verbatim>\<open>< > & ' "\<close> by its entity and keeps every other character, so the escaped text holds
  none of \<^verbatim>\<open>< > ' "\<close>, and decoding the entities of an escaped string gives the string.
\<close>

theorem codec_roundtrip:
  "Option.bind (Option.bind (exportCODECtxt (Some c)) JSON_parse) codecOfJson = Some c \<and>
   Option.bind (Option.bind (Option.bind (exportCODECsvg (Some c)) readMetadata) JSON_parse)
     codecOfJson = Some c \<and>
   Option.bind (exportCODECtxt (Some c)) JSON_parse = Some (codecToJson c) \<and>
   Option.bind (Option.bind (exportCODECsvg (Some c)) readMetadata) JSON_parse =
     Some (codecToJson c) \<and>
   unescapeXml (escapeXml s) = s \<and>
   (escapeXml_char ch = [ch] \<longleftrightarrow> ch \<notin> {CHR ''<'', CHR ''>'', CHR ''&'', CHR 0x27, CHR 0x22}) \<and>
   map escapeXml_char [CHR ''<'', CHR ''>'', CHR ''&'', CHR 0x27, CHR 0x22] =
     [''&lt;'', ''&gt;'', ''&amp;'', ''&apos;'', ''&quot;''] \<and>
   set (escapeXml s) \<inter> {CHR ''<'', CHR ''>'', CHR 0x27, CHR 0x22} = {}"
proof -
  have "map escapeXml_char [CHR ''<'', CHR ''>'', CHR ''&'', CHR 0x27, CHR 0x22] =
     [''&lt;'', ''&gt;'', ''&amp;'', ''&apos;'', ''&quot;'']"
    by (simp add: escapeXml_char_def)
  then show ?thesis
    using escapeXml_char_plain [of ch] escapeXml_clean [of s]
    by (simp add: exportCODECtxt_def exportCODECsvg_def Let_def JSON_parse_stringify
        codecOfJson_codecToJson readMetadata_export unescapeXml_escapeXml)
qed

text \<open>
  Claim C10.  For a draw in the closed interval from 0 to 1 (the draw 1 included) and every
  pair class, \<open>floor (draw * choiceCount)\<close> is at most \<open>choiceCount\<close> and the index
  \<open>floor (draw * choiceCount) % choiceCount\<close> is at least 0 and below \<open>choiceCount\<close>;
  \<open>dashForPair\<close> then returns the pattern at that index, a member of the class's list, and
  never reads outside the list.
\<close>

theorem dashForPair_index_in_range:
  assumes draw: "rng st = (draw, st')" and lo: "0 \<le> draw" and hi: "draw \<le> 1"
  shows "\<lfloor>draw * real (length (DASH_ALPHABET k))\<rfloor> \<le> int (length (DASH_ALPHABET k)) \<and>
         0 \<le> js_rem \<lfloor>draw * real (length (DASH_ALPHABET k))\<rfloor> (int (length (DASH_ALPHABET k))) \<and>
         js_rem \<lfloor>draw * real (length (DASH_ALPHABET k))\<rfloor> (int (length (DASH_ALPHABET k)))
           < int (length (DASH_ALPHABET k)) \<and>
         (let choices = DASH_ALPHABET (classifyPair a b);
              idx = js_rem \<lfloor>draw * real (length choices)\<rfloor> (int (length choices))
          in dashForPair a b rng st = (Some (choices ! nat idx), st') \<and>
             choices ! nat idx \<in> set choices)"
proof -
  have range: "0 \<le> js_rem \<lfloor>draw * real (length (DASH_ALPHABET j))\<rfloor> (int (length (DASH_ALPHABET j)))
      \<and> js_rem \<lfloor>draw * real (length (DASH_ALPHABET j))\<rfloor> (int (length (DASH_ALPHABET j)))
           < int (length (DASH_ALPHABET j))" for j
  proof -
    let ?n = "length (DASH_ALPHABET j)"
    have n: "0 < ?n" using DASH_ALPHABET_length [of j] by auto
    have "0 \<le> draw * real ?n" using lo by simp
    then have fl: "0 \<le> \<lfloor>draw * real ?n\<rfloor>" by simp
    have "js_rem \<lfloor>draw * real ?n\<rfloor> (int ?n) = \<lfloor>draw * real ?n\<rfloor> mod int ?n"
      using fl n by (simp add: js_rem_nonneg)
    then show ?thesis using n by simp
  qed
  let ?cs = "DASH_ALPHABET (classifyPair a b)"
  let ?idx = "js_rem \<lfloor>draw * real (length ?cs)\<rfloor> (int (length ?cs))"
  have r: "0 \<le> ?idx" "?idx < int (length ?cs)"
    using range [of "classifyPair a b"] by simp_all
  then have "nat ?idx < length ?cs" by linarith
  then have mem: "?cs ! nat ?idx \<in> set ?cs" by simp
  have "dashForPair a b rng st = (Some (?cs ! nat ?idx), st')"
    using r by (simp add: dashForPair_def Let_def draw arrayGet_def)
  moreover have "\<lfloor>draw * real (length (DASH_ALPHABET k))\<rfloor> \<le> int (length (DASH_ALPHABET k))"
  proof -
    have "draw * real (length (DASH_ALPHABET k)) \<le> 1 * real (length (DASH_ALPHABET k))"
      using hi by (intro mult_right_mono) simp_all
    then have "\<lfloor>draw * real (length (DASH_ALPHABET k))\<rfloor> \<le> \<lfloor>real (length (DASH_ALPHABET k))\<rfloor>"
      by (intro floor_mono) simp
    then show ?thesis by simp
  qed
  ultimately show ?thesis using range [of k] mem by (simp add: Let_def)
qed

theorem dashForPair_index_in_range_witness:
  "dashForPair (CHR ''a'') (CHR ''b'') (\<lambda>s::unit. (1, s)) () = (Some [2, 6], ()) \<and>
   [2, 6] \<in> set (DASH_ALPHABET LL)"
proof -
  have k: "classifyPair (CHR ''a'') (CHR ''b'') = LL"
    by (simp add: classifyPair_def isNumOrUnd_def isUpper_def isLower_def)
  show ?thesis
    using dashForPair_index_in_range [of "\<lambda>s::unit. (1, s)" "()" 1 "()" LL "CHR ''a''" "CHR ''b''"]
    by (simp add: k Let_def js_rem_def)
qed

end
